theory Spec2Isabelle
  imports Main
begin

section \<open>Date resolution helpers of HelperInfra.py\<close>

text \<open>
  The development embeds the pure date logic of \<^verbatim>\<open>Momemtum Template/HelperInfra.py\<close>:
  \<^verbatim>\<open>get_target_date\<close> with its nested helper \<^verbatim>\<open>get_adjusted_year_month\<close>,
  \<^verbatim>\<open>last_thursday\<close> and \<^verbatim>\<open>last_friday_of_previous_month\<close>, together with the parts of
  Python's \<^verbatim>\<open>int\<close>, \<^verbatim>\<open>str\<close>, \<^verbatim>\<open>calendar\<close> and \<^verbatim>\<open>datetime\<close> that these functions call.
  Python integers are unbounded and are modelled by \<open>int\<close>; Python's \<^verbatim>\<open>//\<close> and \<^verbatim>\<open>%\<close>
  with a positive divisor agree with \<open>div\<close> and \<open>mod\<close> on \<open>int\<close>. Every exception is a
  value \<open>Inl e\<close> of the result type.
\<close>

subsection \<open>Exceptions\<close>

text \<open>
  All failures of \<^verbatim>\<open>get_target_date\<close> are \<^verbatim>\<open>ValueError\<close>s that differ in their message.
  \<open>Invalid_Type1 m\<close> is the message \<^verbatim>\<open>"Invalid Type 1 pattern format. Error: " + m\<close> built by the
  handler of the first \<^verbatim>\<open>try\<close> block, \<open>Invalid_Type2 m\<close> that of the second one. The inner
  messages are: \<open>Unpack\<close> (the tuple assignment did not get exactly three values),
  \<open>Int_Literal\<close> (\<^verbatim>\<open>int()\<close> rejected its argument), \<open>Day_Range\<close>
  (\<^verbatim>\<open>"Day must be between 1-5 (Mon-Fri)"\<close>), \<open>Week_Position\<close>
  (\<^verbatim>\<open>"Week must be 1, 2, 3, or L"\<close>), \<open>Suffix\<close>
  (\<^verbatim>\<open>"Type 2 pattern must end with F (First) or L (Last)"\<close>). \<open>Query_Type\<close> is
  \<^verbatim>\<open>"Query type must be 1 or 2"\<close>, \<open>Date_Field\<close> is the complaint of the \<^verbatim>\<open>datetime\<close>
  constructor about a year, month or day out of range, and \<open>Illegal_Month\<close> is
  \<^verbatim>\<open>calendar.IllegalMonthError\<close>. \<open>OverflowError\<close> is no \<^verbatim>\<open>ValueError\<close>: the
  \<^verbatim>\<open>datetime\<close> constructor raises it for an argument that does not fit a C \<^verbatim>\<open>int\<close>, and
  date arithmetic raises it for a result outside the ordinals of \<^verbatim>\<open>datetime\<close>.
\<close>

datatype message =
    Query_Type
  | Invalid_Type1 message
  | Invalid_Type2 message
  | Unpack
  | Int_Literal
  | Day_Range
  | Week_Position
  | Suffix
  | Date_Field
  | Illegal_Month

datatype error = ValueError message | IndexError | OverflowError

definition and_then :: "error + 'a \<Rightarrow> ('a \<Rightarrow> error + 'b) \<Rightarrow> error + 'b" where
  "and_then r f = (case r of Inl e \<Rightarrow> Inl e | Inr v \<Rightarrow> f v)"

subsection \<open>Strings, \<^verbatim>\<open>int()\<close>, \<^verbatim>\<open>str.split\<close>, \<^verbatim>\<open>str.endswith\<close> and list indexing\<close>

text \<open>
  A \<open>string\<close> stands for a Python \<^verbatim>\<open>str\<close> whose code points are below 256, one \<open>char\<close>
  per code point. \<^verbatim>\<open>int(s)\<close> in base 10 skips white space on both sides, reads an optional
  sign and then decimal digits, where single underscores may stand between digits. The
  white space of \<^verbatim>\<open>int()\<close> below code point 256 is \<^verbatim>\<open>\t\<close>, \<^verbatim>\<open>\n\<close>, \<^verbatim>\<open>\x0b\<close>,
  \<^verbatim>\<open>\x0c\<close>, \<^verbatim>\<open>\r\<close>, the blank, \<^verbatim>\<open>\x85\<close> and \<^verbatim>\<open>\xa0\<close>. A literal of more than
  4300 digits (the default of \<^verbatim>\<open>sys.get_int_max_str_digits()\<close>, which the program does not
  change) is rejected with a \<^verbatim>\<open>ValueError\<close> like any other malformed literal; leading
  zeros count as digits, while the sign, underscores and white space do not.
\<close>

definition MAX_STR_DIGITS :: nat where "MAX_STR_DIGITS = 4300"

definition is_space :: "char \<Rightarrow> bool" where
  "is_space c =
     (let n = (of_char c :: nat)
      in (9 \<le> n \<and> n \<le> 13) \<or> n = 32 \<or> n = 133 \<or> n = 160)"

definition is_digit :: "char \<Rightarrow> bool" where
  "is_digit c = (let n = (of_char c :: nat) in 48 \<le> n \<and> n \<le> 57)"

definition digit_value :: "char \<Rightarrow> int" where
  "digit_value c = int (of_char c) - 48"

fun digits_ok :: "string \<Rightarrow> bool" where
  "digits_ok [] = False"
| "digits_ok [c] = is_digit c"
| "digits_ok (c # d # cs) =
     (is_digit c \<and> (if d = CHR ''_'' then digits_ok cs else digits_ok (d # cs)))"

definition digits_value :: "string \<Rightarrow> int" where
  "digits_value ds = foldl (\<lambda>a c. 10 * a + digit_value c) 0 ds"

definition py_int :: "string \<Rightarrow> int option" where
  "py_int s =
     (let s1 = dropWhile is_space s;
          neg = (s1 \<noteq> [] \<and> hd s1 = CHR ''-'');
          s2 = (if s1 \<noteq> [] \<and> (hd s1 = CHR ''-'' \<or> hd s1 = CHR ''+'') then tl s1 else s1);
          s3 = rev (dropWhile is_space (rev s2))
      in if digits_ok s3 \<and> length (filter is_digit s3) \<le> MAX_STR_DIGITS
         then Some ((if neg then - 1 else 1) * digits_value (filter is_digit s3))
         else None)"

fun split_on :: "char \<Rightarrow> string \<Rightarrow> string list" where
  "split_on sep [] = [[]]"
| "split_on sep (c # cs) =
     (if c = sep then [] # split_on sep cs
      else (case split_on sep cs of
              [] \<Rightarrow> [[c]]
            | f # fs \<Rightarrow> (c # f) # fs))"

definition endswith :: "string \<Rightarrow> string \<Rightarrow> bool" where
  "endswith s suf =
     (length suf \<le> length s \<and> drop (length s - length suf) s = suf)"

text \<open>\<^verbatim>\<open>xs[i]\<close>: a negative index counts from the end, an index out of range raises.\<close>

definition py_index :: "'a list \<Rightarrow> int \<Rightarrow> error + 'a" where
  "py_index xs i =
     (if 0 \<le> i \<and> i < int (length xs) then Inr (xs ! nat i)
      else if i < 0 \<and> - int (length xs) \<le> i then Inr (xs ! nat (int (length xs) + i))
      else Inl IndexError)"

subsection \<open>The \<^verbatim>\<open>datetime\<close> and \<^verbatim>\<open>calendar\<close> modules\<close>

text \<open>
  A \<^verbatim>\<open>datetime\<close> is modelled by its date fields; the functions below only build datetimes
  at midnight and read only the date fields of the reference date.
\<close>

record datetime =
  year :: int
  month :: int
  day :: int

definition MINYEAR :: int where "MINYEAR = 1"
definition MAXYEAR :: int where "MAXYEAR = 9999"

text \<open>
  The tables of the module are lists indexed by the month, with a filler at index 0. They
  are read at months \<open>1..12\<close> only: the constructor checks the month before it looks up
  the length of the month, and \<^verbatim>\<open>_ord2ymd\<close> estimates a month in that range.
\<close>

definition DAYS_IN_MONTH :: "int list" where
  "DAYS_IN_MONTH = [- 1, 31, 28, 31, 30, 31, 30, 31, 31, 30, 31, 30, 31]"

definition DAYS_BEFORE_MONTH :: "int list" where
  "DAYS_BEFORE_MONTH = [- 1, 0, 31, 59, 90, 120, 151, 181, 212, 243, 273, 304, 334]"

definition is_leap :: "int \<Rightarrow> bool" where
  "is_leap y = (y mod 4 = 0 \<and> (y mod 100 \<noteq> 0 \<or> y mod 400 = 0))"

definition days_before_year :: "int \<Rightarrow> int" where
  "days_before_year yr = (let y = yr - 1 in y * 365 + y div 4 - y div 100 + y div 400)"

definition days_in_month :: "int \<Rightarrow> int \<Rightarrow> int" where
  "days_in_month y m = (if m = 2 \<and> is_leap y then 29 else DAYS_IN_MONTH ! nat m)"

definition days_before_month :: "int \<Rightarrow> int \<Rightarrow> int" where
  "days_before_month y m =
     DAYS_BEFORE_MONTH ! nat m + (if m > 2 \<and> is_leap y then 1 else 0)"

definition ymd2ord :: "int \<Rightarrow> int \<Rightarrow> int \<Rightarrow> int" where
  "ymd2ord y m d = days_before_year y + days_before_month y m + d"

text \<open>
  \<^verbatim>\<open>_ord2ymd\<close>, with \<^verbatim>\<open>divmod\<close> written as \<open>div\<close> and \<open>mod\<close> and \<^verbatim>\<open>>> 5\<close> as \<open>div 32\<close>.
  Its last part, which finds the month and the day from the offset \<open>n\<close> in the year by
  an estimate of the month that is exact or one too large, is \<open>month_and_day\<close>.
\<close>

definition month_and_day :: "int \<Rightarrow> bool \<Rightarrow> int \<times> int" where
  "month_and_day n leapyear =
     (let mo = (n + 50) div 32;
          preceding = DAYS_BEFORE_MONTH ! nat mo + (if mo > 2 \<and> leapyear then 1 else 0)
      in if preceding > n
         then (let mo = mo - 1;
                   preceding = preceding -
                     (DAYS_IN_MONTH ! nat mo + (if mo = 2 \<and> leapyear then 1 else 0))
               in (mo, n - preceding + 1))
         else (mo, n - preceding + 1))"

definition ord2ymd :: "int \<Rightarrow> int \<times> int \<times> int" where
  "ord2ymd n0 =
     (let n = n0 - 1;
          n400 = n div 146097; n = n mod 146097;
          yr = n400 * 400 + 1;
          n100 = n div 36524; n = n mod 36524;
          n4 = n div 1461; n = n mod 1461;
          n1 = n div 365; n = n mod 365;
          yr = yr + n100 * 100 + n4 * 4 + n1
      in if n1 = 4 \<or> n100 = 4 then (yr - 1, 12, 31)
         else (let leapyear = (n1 = 3 \<and> (n4 \<noteq> 24 \<or> n100 = 3))
               in (case month_and_day n leapyear of (mo, d) \<Rightarrow> (yr, mo, d))))"

text \<open>
  The constructor \<^verbatim>\<open>datetime(year, month, day)\<close>. It first converts its arguments to
  C \<^verbatim>\<open>int\<close> (32 bits) and raises \<^verbatim>\<open>OverflowError\<close> when one of them does not fit; then it
  checks the fields and raises \<^verbatim>\<open>ValueError\<close>.
\<close>

definition INT_MIN :: int where "INT_MIN = - 2147483648"
definition INT_MAX :: int where "INT_MAX = 2147483647"

definition fits_c_int :: "int \<Rightarrow> bool" where
  "fits_c_int i = (INT_MIN \<le> i \<and> i \<le> INT_MAX)"

definition new_datetime :: "int \<Rightarrow> int \<Rightarrow> int \<Rightarrow> error + datetime" where
  "new_datetime y m d =
     (if \<not> (fits_c_int y \<and> fits_c_int m \<and> fits_c_int d) then Inl OverflowError
      else if \<not> (MINYEAR \<le> y \<and> y \<le> MAXYEAR) then Inl (ValueError Date_Field)
      else if \<not> (1 \<le> m \<and> m \<le> 12) then Inl (ValueError Date_Field)
      else if \<not> (1 \<le> d \<and> d \<le> days_in_month y m) then Inl (ValueError Date_Field)
      else Inr \<lparr>year = y, month = m, day = d\<rparr>)"

text \<open>
  The exception of the constructor for a year outside \<open>MINYEAR..MAXYEAR\<close>, when month and
  day are in order.
\<close>

definition year_error :: "int \<Rightarrow> error" where
  "year_error y = (if fits_c_int y then ValueError Date_Field else OverflowError)"

text \<open>\<^verbatim>\<open>dt.replace(day=d)\<close> calls the constructor with the other fields of \<open>dt\<close>.\<close>

definition replace_day :: "datetime \<Rightarrow> int \<Rightarrow> error + datetime" where
  "replace_day dt d = new_datetime (year dt) (month dt) d"

definition toordinal :: "datetime \<Rightarrow> int" where
  "toordinal dt = ymd2ord (year dt) (month dt) (day dt)"

definition weekday :: "datetime \<Rightarrow> int" where
  "weekday dt = (toordinal dt + 6) mod 7"


text \<open>The valid values of the type: what the constructor accepts.\<close>

definition valid_date :: "datetime \<Rightarrow> bool" where
  "valid_date dt =
     (MINYEAR \<le> year dt \<and> year dt \<le> MAXYEAR \<and> 1 \<le> month dt \<and> month dt \<le> 12 \<and>
      1 \<le> day dt \<and> day dt \<le> days_in_month (year dt) (month dt))"

text \<open>The \<^verbatim>\<open>calendar\<close> module, with the default first weekday 0 (Monday).\<close>

definition mdays :: "int list" where
  "mdays = [0, 31, 28, 31, 30, 31, 30, 31, 31, 30, 31, 30, 31]"

definition firstweekday :: int where "firstweekday = 0"

definition isleap :: "int \<Rightarrow> bool" where
  "isleap y = (y mod 4 = 0 \<and> (y mod 100 \<noteq> 0 \<or> y mod 400 = 0))"

definition calendar_weekday :: "int \<Rightarrow> int \<Rightarrow> int \<Rightarrow> error + int" where
  "calendar_weekday y m d =
     (let y = (if \<not> (MINYEAR \<le> y \<and> y \<le> MAXYEAR) then 2000 + y mod 400 else y)
      in and_then (new_datetime y m d) (\<lambda>dt. Inr (weekday dt)))"

definition monthrange :: "int \<Rightarrow> int \<Rightarrow> error + (int \<times> int)" where
  "monthrange y m =
     (if \<not> (1 \<le> m \<and> m \<le> 12) then Inl (ValueError Illegal_Month)
      else and_then (calendar_weekday y m 1) (\<lambda>day1.
        Inr (day1, mdays ! nat m + (if m = 2 \<and> isleap y then 1 else 0))))"

text \<open>
  The three \<^verbatim>\<open>yield from\<close> of \<^verbatim>\<open>itermonthdays\<close>, given the result \<open>(day1, ndays)\<close> of
  \<^verbatim>\<open>monthrange\<close>: zeros before day 1, the days, zeros up to the end of the last week.
\<close>

definition month_grid_days :: "int \<Rightarrow> int \<Rightarrow> int list" where
  "month_grid_days day1 ndays =
     (let days_before = (day1 - firstweekday) mod 7;
          days_after = (firstweekday - day1 - ndays) mod 7
      in replicate (nat days_before) 0 @ [1..ndays] @ replicate (nat days_after) 0)"

definition itermonthdays :: "int \<Rightarrow> int \<Rightarrow> error + int list" where
  "itermonthdays y m =
     and_then (monthrange y m) (\<lambda>(day1, ndays). Inr (month_grid_days day1 ndays))"

text \<open>\<^verbatim>\<open>[days[i:i+7] for i in range(0, len(days), 7)]\<close>\<close>

function weeks :: "int list \<Rightarrow> int list list" where
  "weeks days = (if days = [] then [] else take 7 days # weeks (drop 7 days))"
  by pat_completeness auto
termination
  by (relation "measure length") auto

declare weeks.simps [simp del]

definition monthcalendar :: "int \<Rightarrow> int \<Rightarrow> error + int list list" where
  "monthcalendar y m = and_then (itermonthdays y m) (\<lambda>days. Inr (weeks days))"

subsection \<open>\<^verbatim>\<open>get_target_date\<close>\<close>

text \<open>
  The nested helper \<^verbatim>\<open>get_adjusted_year_month\<close>: each of its two \<^verbatim>\<open>while\<close> loops is a
  recursive function on the loop variables \<open>(year, month)\<close>.
\<close>

function while_nonpositive :: "int \<Rightarrow> int \<Rightarrow> int \<times> int" where
  "while_nonpositive y m = (if m \<le> 0 then while_nonpositive (y - 1) (m + 12) else (y, m))"
  by pat_completeness auto
termination
  by (relation "measure (\<lambda>(y, m). nat (1 - m))") auto

function while_above_12 :: "int \<Rightarrow> int \<Rightarrow> int \<times> int" where
  "while_above_12 y m = (if m > 12 then while_above_12 (y + 1) (m - 12) else (y, m))"
  by pat_completeness auto
termination
  by (relation "measure (\<lambda>(y, m). nat m)") auto

declare while_nonpositive.simps [simp del] while_above_12.simps [simp del]

definition get_adjusted_year_month :: "int \<Rightarrow> int \<Rightarrow> int \<Rightarrow> int \<times> int" where
  "get_adjusted_year_month y m offset =
     (case while_nonpositive y (m + offset) of (y1, m1) \<Rightarrow> while_above_12 y1 m1)"

text \<open>
  The first \<^verbatim>\<open>try\<close> block (type 1): split, unpack, the two \<^verbatim>\<open>int()\<close> calls and the two
  checks, in the order of the source. It yields the month offset, the zero-based day of the
  week and the week position.
\<close>

definition parse_type1 :: "string \<Rightarrow> error + (int \<times> int \<times> string)" where
  "parse_type1 pattern =
     (case split_on CHR ''/'' pattern of
        [f1, f2, week_pos] \<Rightarrow>
          (case py_int f1 of
             None \<Rightarrow> Inl (ValueError (Invalid_Type1 Int_Literal))
           | Some month_offset \<Rightarrow>
               (case py_int f2 of
                  None \<Rightarrow> Inl (ValueError (Invalid_Type1 Int_Literal))
                | Some d \<Rightarrow>
                    (let day_of_week = d - 1
                     in if \<not> (1 \<le> day_of_week + 1 \<and> day_of_week + 1 \<le> 5)
                        then Inl (ValueError (Invalid_Type1 Day_Range))
                        else if week_pos \<notin> set [''1'', ''2'', ''3'', ''L'']
                        then Inl (ValueError (Invalid_Type1 Week_Position))
                        else Inr (month_offset, day_of_week, week_pos))))
      | _ \<Rightarrow> Inl (ValueError (Invalid_Type1 Unpack)))"

text \<open>The second \<^verbatim>\<open>try\<close> block (type 2): it yields the month offset and \<^verbatim>\<open>is_first_day\<close>.\<close>

definition parse_type2 :: "string \<Rightarrow> error + (int \<times> bool)" where
  "parse_type2 pattern =
     (if \<not> (endswith pattern ''F'' \<or> endswith pattern ''L'')
      then Inl (ValueError (Invalid_Type2 Suffix))
      else (case py_int (butlast pattern) of
              None \<Rightarrow> Inl (ValueError (Invalid_Type2 Int_Literal))
            | Some month_offset \<Rightarrow> Inr (month_offset, endswith pattern ''F'')))"

text \<open>The loop that collects \<^verbatim>\<open>week[day_of_week]\<close> over the weeks of the month grid.\<close>

fun day_occurrences :: "int list list \<Rightarrow> int \<Rightarrow> error + int list" where
  "day_occurrences [] day_of_week = Inr []"
| "day_occurrences (week # c) day_of_week =
     and_then (py_index week day_of_week) (\<lambda>v.
       and_then (day_occurrences c day_of_week) (\<lambda>rest.
         Inr (if v \<noteq> 0 then v # rest else rest)))"

text \<open>The choice of the target day from the occurrences and the week position.\<close>

definition target_day :: "int list \<Rightarrow> string \<Rightarrow> error + int" where
  "target_day occurrences week_pos =
     (if week_pos = ''L'' then py_index occurrences (- 1)
      else (case py_int week_pos of
              None \<Rightarrow> Inl (ValueError Int_Literal)
            | Some w \<Rightarrow>
                (let week_index = w - 1
                 in if int (length occurrences) > week_index
                    then py_index occurrences week_index
                    else py_index occurrences (- 1))))"

definition get_target_date :: "datetime \<Rightarrow> string \<Rightarrow> int \<Rightarrow> error + datetime" where
  "get_target_date start_date pattern query_type =
     (if query_type \<notin> set [1, 2] then Inl (ValueError Query_Type)
      else if query_type = 1 then
        and_then (parse_type1 pattern) (\<lambda>(month_offset, day_of_week, week_pos).
          case get_adjusted_year_month (year start_date) (month start_date) month_offset of
            (y, m) \<Rightarrow>
              and_then (new_datetime y m 1) (\<lambda>target_month.
                and_then (monthcalendar (year target_month) (month target_month)) (\<lambda>c.
                  and_then (day_occurrences c day_of_week) (\<lambda>occurrences.
                    and_then (target_day occurrences week_pos) (\<lambda>td.
                      replace_day target_month td)))))
      else
        and_then (parse_type2 pattern) (\<lambda>(month_offset, is_first_day).
          case get_adjusted_year_month (year start_date) (month start_date) month_offset of
            (y, m) \<Rightarrow>
              if is_first_day then new_datetime y m 1
              else and_then (monthrange y m) (\<lambda>(day1, ndays). new_datetime y m ndays)))"

subsection \<open>\<^verbatim>\<open>last_thursday\<close> and \<^verbatim>\<open>last_friday_of_previous_month\<close>\<close>




subsection \<open>Reference definitions taken from the specification\<close>

text \<open>
  The closed form that the specification gives for the month shift: with
  \<open>total = month - 1 + offset\<close>, the year grows by \<open>floor (total / 12)\<close> and the month is
  \<open>total mod 12 + 1\<close>. On \<open>int\<close>, \<open>div\<close> rounds towards minus infinity.
\<close>

definition shift_closed_form :: "int \<Rightarrow> int \<Rightarrow> int \<Rightarrow> int \<times> int" where
  "shift_closed_form y m offset =
     (let total = m - 1 + offset in (y + total div 12, total mod 12 + 1))"

text \<open>
  The occurrences of a weekday in a month as the specification describes them: the days
  of the month, in ascending order, whose weekday (Monday is 0) is \<open>d\<close>.
\<close>

definition month_occurrences :: "int \<Rightarrow> int \<Rightarrow> int \<Rightarrow> int list" where
  "month_occurrences y m d =
     filter (\<lambda>k. weekday \<lparr>year = y, month = m, day = k\<rparr> = d) [1..days_in_month y m]"

text \<open>
  A valid pattern of kind 1 in the words of the specification: exactly three fields
  separated by slashes, a month offset that parses as an integer, a weekday that parses as
  an integer in \<open>1..5\<close> and an ordinal that is one of the tokens \<open>1\<close>, \<open>2\<close>, \<open>3\<close>, \<open>L\<close>.
  The result holds the offset, the weekday and the ordinal token.
\<close>

definition type1_fields :: "string \<Rightarrow> (int \<times> int \<times> string) option" where
  "type1_fields p =
     (case split_on CHR ''/'' p of
        [f1, f2, f3] \<Rightarrow>
          (case (py_int f1, py_int f2) of
             (Some off, Some wd) \<Rightarrow>
               if 1 \<le> wd \<and> wd \<le> 5 \<and> f3 \<in> set [''1'', ''2'', ''3'', ''L'']
               then Some (off, wd, f3) else None
           | _ \<Rightarrow> None)
      | _ \<Rightarrow> None)"

text \<open>
  A valid pattern of kind 2 in the words of the specification: a prefix that parses as an
  integer, followed by a single final character \<open>F\<close> or \<open>L\<close>.
\<close>

definition type2_fields :: "string \<Rightarrow> (int \<times> char) option" where
  "type2_fields p =
     (if p = [] \<or> last p \<notin> set ''FL'' then None
      else (case py_int (butlast p) of
              None \<Rightarrow> None
            | Some off \<Rightarrow> Some (off, last p)))"

text \<open>The length of a month of the Gregorian calendar, written out.\<close>

definition month_length :: "int \<Rightarrow> int \<Rightarrow> int" where
  "month_length y m =
     (if m = 2 then (if y mod 4 = 0 \<and> (y mod 100 \<noteq> 0 \<or> y mod 400 = 0) then 29 else 28)
      else if m \<in> set [4, 6, 9, 11] then 30
      else 31)"

section \<open>The month shift\<close>

lemma div_mod_12:
  fixes a q r :: int
  assumes "a = 12 * q + r" and "0 \<le> r" and "r < 12"
  shows "a div 12 = q" and "a mod 12 = r"
  using assms int_div_pos_eq [of a 12 q r] int_mod_pos_eq [of a 12 q r] by simp_all

lemma mod_12_range: "0 \<le> (a::int) mod 12 \<and> a mod 12 < 12"
  by simp

lemma while_nonpositive_closed:
  "while_nonpositive y m =
     (if m \<le> 0 then (y + (m - 1) div 12, (m - 1) mod 12 + 1) else (y, m))"
proof (induction y m rule: while_nonpositive.induct)
  case (1 y m)
  show ?case
  proof (cases "m \<le> 0")
    case False
    then show ?thesis by (simp add: while_nonpositive.simps)
  next
    case True
    have step: "while_nonpositive y m = while_nonpositive (y - 1) (m + 12)"
      using True by (subst while_nonpositive.simps) simp
    have s: "m + 12 - 1 = (m - 1) + 12" by simp
    have d: "(m + 12 - 1) div 12 = (m - 1) div 12 + 1"
      unfolding s by (simp only: div_add_self2)
    have r: "(m + 12 - 1) mod 12 = (m - 1) mod 12"
      unfolding s by (simp only: mod_add_self2)
    show ?thesis
    proof (cases "m + 12 \<le> 0")
      case True
      with 1 \<open>m \<le> 0\<close> step d r show ?thesis by simp
    next
      case False
      have "(m - 1) div 12 = - 1" and "(m - 1) mod 12 = m + 11"
        using False \<open>m \<le> 0\<close> div_mod_12 [of "m - 1" "- 1" "m + 11"] by simp_all
      then show ?thesis using 1 \<open>m \<le> 0\<close> step False by simp
    qed
  qed
qed

lemma while_above_12_closed:
  "while_above_12 y m =
     (if m > 12 then (y + (m - 1) div 12, (m - 1) mod 12 + 1) else (y, m))"
proof (induction y m rule: while_above_12.induct)
  case (1 y m)
  show ?case
  proof (cases "m > 12")
    case False
    then show ?thesis by (simp add: while_above_12.simps)
  next
    case True
    have step: "while_above_12 y m = while_above_12 (y + 1) (m - 12)"
      using True by (subst while_above_12.simps) simp
    have s: "m - 1 = (m - 12 - 1) + 12" by simp
    have "(m - 1) div 12 = ((m - 12 - 1) + 12) div 12" using s by simp
    then have d: "(m - 12 - 1) div 12 = (m - 1) div 12 - 1"
      by (simp only: div_add_self2)
    have "(m - 1) mod 12 = ((m - 12 - 1) + 12) mod 12" using s by simp
    then have r: "(m - 12 - 1) mod 12 = (m - 1) mod 12"
      by (simp only: mod_add_self2)
    show ?thesis
    proof (cases "m - 12 > 12")
      case True
      with 1 \<open>m > 12\<close> step d r show ?thesis by simp
    next
      case False
      have "(m - 1) div 12 = 1" and "(m - 1) mod 12 = m - 13"
        using False \<open>m > 12\<close> div_mod_12 [of "m - 1" 1 "m - 13"] by simp_all
      then show ?thesis using 1 \<open>m > 12\<close> step False by simp
    qed
  qed
qed

text \<open>Both loops together: at most one of them runs, and the result is the closed form.\<close>

lemma get_adjusted_year_month_closed:
  "get_adjusted_year_month y m offset =
     (y + (m - 1 + offset) div 12, (m - 1 + offset) mod 12 + 1)"
proof -
  let ?t = "m + offset"
  have t: "m - 1 + offset = ?t - 1" by simp
  consider "?t \<le> 0" | "1 \<le> ?t \<and> ?t \<le> 12" | "?t > 12" by linarith
  then show ?thesis
  proof cases
    case 1
    have "1 \<le> (?t - 1) mod 12 + 1 \<and> (?t - 1) mod 12 + 1 \<le> 12"
      using mod_12_range [of "?t - 1"] by linarith
    then show ?thesis using 1
      unfolding get_adjusted_year_month_def t
      by (simp add: while_nonpositive_closed while_above_12_closed)
  next
    case 2
    then have "(?t - 1) div 12 = 0" "(?t - 1) mod 12 = ?t - 1"
      using div_mod_12 [of "?t - 1" 0 "?t - 1"] by simp_all
    then show ?thesis using 2
      unfolding get_adjusted_year_month_def t
      by (simp add: while_nonpositive_closed while_above_12_closed)
  next
    case 3
    then show ?thesis
      unfolding get_adjusted_year_month_def t
      by (simp add: while_nonpositive_closed while_above_12_closed)
  qed
qed

lemma shifted_month_range:
  "get_adjusted_year_month y m offset = (y', m') \<Longrightarrow> 1 \<le> m' \<and> m' \<le> 12"
proof -
  assume "get_adjusted_year_month y m offset = (y', m')"
  then have "m' = (m - 1 + offset) mod 12 + 1"
    by (simp add: get_adjusted_year_month_closed)
  then show ?thesis using mod_12_range [of "m - 1 + offset"] by linarith
qed

text \<open>
  C3. The two loops of \<open>get_adjusted_year_month\<close> terminate (both are total recursive
  functions with a decreasing measure) and the value returned is the closed form of the
  specification, computed with floor division, for every year, month and offset; the
  returned month lies in \<open>1..12\<close>.
\<close>

theorem month_shift_is_closed_form:
  "get_adjusted_year_month y m offset = shift_closed_form y m offset \<and>
   get_adjusted_year_month y m offset =
     (y + (m - 1 + offset) div 12, (m - 1 + offset) mod 12 + 1) \<and>
   1 \<le> snd (get_adjusted_year_month y m offset) \<and>
   snd (get_adjusted_year_month y m offset) \<le> 12"
proof -
  have "1 \<le> (m - 1 + offset) mod 12 + 1 \<and> (m - 1 + offset) mod 12 + 1 \<le> 12"
    using mod_12_range [of "m - 1 + offset"] by linarith
  then show ?thesis
    by (simp add: get_adjusted_year_month_closed shift_closed_form_def Let_def)
qed

text \<open>
  C6. Shifting a month in \<open>1..12\<close> by \<open>offset\<close> and the result by \<open>- offset\<close> gives the
  year and month back. January shifted by \<open>- 1\<close> is December of the year before and
  December shifted by \<open>1\<close> is January of the year after.
\<close>

theorem month_shift_round_trip:
  assumes "1 \<le> m" and "m \<le> 12"
  shows "(case get_adjusted_year_month y m offset of
            (y', m') \<Rightarrow> get_adjusted_year_month y' m' (- offset)) = (y, m) \<and>
         get_adjusted_year_month y 1 (- 1) = (y - 1, 12) \<and>
         get_adjusted_year_month y 12 1 = (y + 1, 1)"
proof -
  define t where "t = m - 1 + offset"
  define q where "q = t div 12"
  define r where "r = t mod 12"
  have tqr: "t = 12 * q + r"
    by (simp add: q_def r_def)
  have e: "r + 1 - 1 + (- offset) = 12 * (- q) + (m - 1)"
    using tqr by (simp add: t_def)
  have d: "(r + 1 - 1 + (- offset)) div 12 = - q"
    and d': "(r + 1 - 1 + (- offset)) mod 12 = m - 1"
    using div_mod_12 [OF e] assms by simp_all
  have "get_adjusted_year_month y m offset = (y + q, r + 1)"
    by (simp add: get_adjusted_year_month_closed q_def r_def t_def)
  moreover have "get_adjusted_year_month (y + q) (r + 1) (- offset) = (y, m)"
    unfolding get_adjusted_year_month_closed d d' by simp
  ultimately have "(case get_adjusted_year_month y m offset of
      (y', m') \<Rightarrow> get_adjusted_year_month y' m' (- offset)) = (y, m)"
    by simp
  moreover have "get_adjusted_year_month y 1 (- 1) = (y - 1, 12)"
    by (simp add: get_adjusted_year_month_closed)
  moreover have "get_adjusted_year_month y 12 1 = (y + 1, 1)"
    by (simp add: get_adjusted_year_month_closed)
  ultimately show ?thesis by simp
qed

theorem month_shift_round_trip_witness:
  "(1::int) \<le> 1 \<and> (1::int) \<le> 12 \<and>
   get_adjusted_year_month 2024 1 (- 1) = (2023, 12) \<and>
   get_adjusted_year_month 2023 12 (- (- 1)) = (2024, 1)"
proof -
  have h: "get_adjusted_year_month 2024 1 (- 1) = (2023, 12)"
    by (simp add: get_adjusted_year_month_closed)
  from month_shift_round_trip [where m = 1 and y = 2024 and offset = "- 1"] h
  show ?thesis by simp
qed

section \<open>Calendar facts\<close>

lemma month_cases:
  "1 \<le> m \<Longrightarrow> m \<le> 12 \<Longrightarrow> m \<in> {1, 2, 3, 4, 5, 6, 7, 8, 9, 10, 11, 12 :: int}"
  by simp arith

lemma days_in_month_length:
  "1 \<le> m \<Longrightarrow> m \<le> 12 \<Longrightarrow> days_in_month y m = month_length y m"
  using month_cases [of m]
  by (auto simp: days_in_month_def month_length_def DAYS_IN_MONTH_def is_leap_def)

lemma days_in_month_range:
  "1 \<le> m \<Longrightarrow> m \<le> 12 \<Longrightarrow> 28 \<le> days_in_month y m \<and> days_in_month y m \<le> 31"
  by (simp add: days_in_month_length month_length_def)

lemma mdays_days_in_month:
  "1 \<le> m \<Longrightarrow> m \<le> 12 \<Longrightarrow>
   mdays ! nat m + (if m = 2 \<and> isleap y then 1 else 0) = days_in_month y m"
  using month_cases [of m]
  by (auto simp: days_in_month_def mdays_def DAYS_IN_MONTH_def is_leap_def isleap_def)

text \<open>The calendar repeats every 400 years, which are 146097 days or 20871 weeks.\<close>

lemma days_before_year_400: "days_before_year (y + 400 * k) = days_before_year y + 146097 * k"
proof -
  have a: "(y + 400 * k - 1) div 4 = (y - 1) div 4 + 100 * k"
    using div_mult_self1 [of 4 "y - 1" "100 * k"] by (simp add: algebra_simps)
  have b: "(y + 400 * k - 1) div 100 = (y - 1) div 100 + 4 * k"
    using div_mult_self1 [of 100 "y - 1" "4 * k"] by (simp add: algebra_simps)
  have c: "(y + 400 * k - 1) div 400 = (y - 1) div 400 + k"
    using div_mult_self1 [of 400 "y - 1" k] by (simp add: algebra_simps)
  show ?thesis
    unfolding days_before_year_def Let_def a b c by (simp add: algebra_simps)
qed

lemma is_leap_400: "is_leap (y + 400 * k) = is_leap y"
proof -
  have "(y + 400 * k) mod 4 = y mod 4"
    using mod_mult_self1 [of y "100 * k" 4] by (simp add: algebra_simps)
  moreover have "(y + 400 * k) mod 100 = y mod 100"
    using mod_mult_self1 [of y "4 * k" 100] by (simp add: algebra_simps)
  moreover have "(y + 400 * k) mod 400 = y mod 400"
    using mod_mult_self1 [of y k 400] by (simp add: algebra_simps)
  ultimately show ?thesis by (simp add: is_leap_def)
qed

lemma ymd2ord_400: "ymd2ord (y + 400 * k) m d = ymd2ord y m d + 146097 * k"
  by (simp add: ymd2ord_def days_before_year_400 days_before_month_def is_leap_400)

lemma year_replacement: "2000 + y mod 400 = y + 400 * (5 - y div 400)" for y :: int
proof -
  have "y mod 400 = y - 400 * (y div 400)"
    by (simp add: minus_mult_div_eq_mod)
  then show ?thesis by (simp only: right_diff_distrib)
qed

lemma weekday_replacement:
  "(ymd2ord (2000 + y mod 400) m d + 6) mod 7 = (ymd2ord y m d + 6) mod 7"
proof -
  have "ymd2ord (2000 + y mod 400) m d + 6 = (ymd2ord y m d + 6) + 7 * (20871 * (5 - y div 400))"
    unfolding year_replacement ymd2ord_400 by simp
  then show ?thesis by (simp only: mod_mult_self2)
qed

lemma days_in_month_replacement:
  "days_in_month (2000 + y mod 400) m = days_in_month y m"
proof -
  have "is_leap (2000 + y mod 400) = is_leap y"
    unfolding year_replacement by (rule is_leap_400)
  then show ?thesis by (simp add: days_in_month_def)
qed

text \<open>The constructor on a day of the calendar: a date, or the error for the year.\<close>

lemma new_datetime_in_range:
  assumes "MINYEAR \<le> y" "y \<le> MAXYEAR" "1 \<le> m" "m \<le> 12"
    and "1 \<le> d" "d \<le> days_in_month y m"
  shows "new_datetime y m d = Inr \<lparr>year = y, month = m, day = d\<rparr>"
proof -
  have "d \<le> 31" using assms(6) days_in_month_range [OF assms(3,4), of y] by simp
  then have "fits_c_int y \<and> fits_c_int m \<and> fits_c_int d"
    using assms
    by (simp add: fits_c_int_def INT_MIN_def INT_MAX_def MINYEAR_def MAXYEAR_def)
  then show ?thesis using assms by (simp add: new_datetime_def)
qed

lemma new_datetime_year_error:
  assumes "1 \<le> m" "m \<le> 12" "1 \<le> d" "d \<le> 31"
    and "\<not> (MINYEAR \<le> y \<and> y \<le> MAXYEAR)"
  shows "new_datetime y m d = Inl (year_error y)"
proof -
  have "fits_c_int m \<and> fits_c_int d"
    using assms by (simp add: fits_c_int_def INT_MIN_def INT_MAX_def)
  then show ?thesis using assms(5) by (simp add: new_datetime_def year_error_def)
qed

lemma year_error_cases:
  "year_error y = ValueError Date_Field \<or> year_error y = OverflowError"
  by (simp add: year_error_def)

lemma calendar_weekday_first:
  assumes "1 \<le> m" and "m \<le> 12"
  shows "calendar_weekday y m 1 = Inr ((ymd2ord y m 1 + 6) mod 7)"
proof (cases "MINYEAR \<le> y \<and> y \<le> MAXYEAR")
  case True
  then have "new_datetime y m 1 = Inr \<lparr>year = y, month = m, day = 1\<rparr>"
    using assms days_in_month_range [of m y] by (intro new_datetime_in_range) simp_all
  then show ?thesis
    using True
    by (simp add: calendar_weekday_def and_then_def weekday_def toordinal_def)
next
  case False
  have r: "0 \<le> y mod 400 \<and> y mod 400 < 400" by simp
  have "new_datetime (2000 + y mod 400) m 1 =
          Inr \<lparr>year = 2000 + y mod 400, month = m, day = 1\<rparr>"
    using assms r days_in_month_range [of m "2000 + y mod 400"]
    by (intro new_datetime_in_range) (simp_all add: MINYEAR_def MAXYEAR_def)
  then show ?thesis
    using False
    by (simp add: calendar_weekday_def and_then_def weekday_def toordinal_def
        weekday_replacement)
qed

lemma monthrange_value:
  assumes "1 \<le> m" and "m \<le> 12"
  shows "monthrange y m = Inr ((ymd2ord y m 1 + 6) mod 7, days_in_month y m)"
  using assms
  by (simp add: monthrange_def calendar_weekday_first and_then_def mdays_days_in_month)

lemma weekday_of_day:
  "weekday \<lparr>year = y, month = m, day = k\<rparr> = ((ymd2ord y m 1 + 6) mod 7 + k - 1) mod 7"
proof -
  have "ymd2ord y m k + 6 = (ymd2ord y m 1 + 6) + (k - 1)"
    by (simp add: ymd2ord_def)
  then have "(ymd2ord y m k + 6) mod 7 = ((ymd2ord y m 1 + 6) mod 7 + (k - 1)) mod 7"
    by (simp only: mod_add_left_eq)
  then show ?thesis
    by (simp add: weekday_def toordinal_def algebra_simps)
qed

text \<open>
  The month grid, for each weekday of day 1, each month length and each column: the
  non-zero entries of the column are the days that fall on the weekday of the column, and
  there are four or five of them.
\<close>

lemma grid_table:
  "\<forall>a\<in>set [0..6]. \<forall>n\<in>set [28..31]. \<forall>d\<in>set [0..6].
     day_occurrences (weeks (month_grid_days a n)) d =
       Inr (filter (\<lambda>k. (a + k - 1) mod 7 = d) [1..n]) \<and>
     (length (filter (\<lambda>k. (a + k - 1) mod 7 = d) [1..n]) = 4 \<or>
      length (filter (\<lambda>k. (a + k - 1) mod 7 = d) [1..n]) = 5)"
  by code_simp

lemma grid_column:
  assumes "0 \<le> a" "a < 7" "28 \<le> n" "n \<le> 31" "0 \<le> d" "d < 7"
  shows "day_occurrences (weeks (month_grid_days a n)) d =
           Inr (filter (\<lambda>k. (a + k - 1) mod 7 = d) [1..n])"
    and "length (filter (\<lambda>k. (a + k - 1) mod 7 = d) [1..n]) = 4 \<or>
         length (filter (\<lambda>k. (a + k - 1) mod 7 = d) [1..n]) = 5"
proof -
  have "a \<in> set [0..6]" "n \<in> set [28..31]" "d \<in> set [0..6]"
    using assms by (simp_all only: set_upto atLeastAtMost_iff) simp_all
  then show "day_occurrences (weeks (month_grid_days a n)) d =
           Inr (filter (\<lambda>k. (a + k - 1) mod 7 = d) [1..n])"
    and "length (filter (\<lambda>k. (a + k - 1) mod 7 = d) [1..n]) = 4 \<or>
         length (filter (\<lambda>k. (a + k - 1) mod 7 = d) [1..n]) = 5"
    using grid_table by blast+
qed

lemma month_occurrences_filter:
  "month_occurrences y m d =
     filter (\<lambda>k. ((ymd2ord y m 1 + 6) mod 7 + k - 1) mod 7 = d) [1..days_in_month y m]"
  by (simp add: month_occurrences_def weekday_of_day)

lemma monthcalendar_occurrences:
  assumes "1 \<le> m" and "m \<le> 12" and "0 \<le> d" and "d < 7"
  shows "\<exists>c. monthcalendar y m = Inr c \<and>
             day_occurrences c d = Inr (month_occurrences y m d)"
    and "length (month_occurrences y m d) = 4 \<or> length (month_occurrences y m d) = 5"
proof -
  let ?a = "(ymd2ord y m 1 + 6) mod 7"
  let ?n = "days_in_month y m"
  have a: "0 \<le> ?a" "?a < 7" by simp_all
  have n: "28 \<le> ?n" "?n \<le> 31" using assms days_in_month_range [of m y] by simp_all
  have "monthcalendar y m = Inr (weeks (month_grid_days ?a ?n))"
    using assms by (simp add: monthcalendar_def itermonthdays_def monthrange_value and_then_def)
  then show "\<exists>c. monthcalendar y m = Inr c \<and>
             day_occurrences c d = Inr (month_occurrences y m d)"
    using grid_column(1) [OF a n assms(3,4)] by (simp add: month_occurrences_filter)
  show "length (month_occurrences y m d) = 4 \<or> length (month_occurrences y m d) = 5"
    using grid_column(2) [OF a n assms(3,4)] by (simp add: month_occurrences_filter)
qed

lemma month_occurrences_member:
  "k \<in> set (month_occurrences y m d) \<longleftrightarrow>
     1 \<le> k \<and> k \<le> days_in_month y m \<and> weekday \<lparr>year = y, month = m, day = k\<rparr> = d"
  by (auto simp: month_occurrences_def)

lemma month_occurrences_ascending: "sorted_wrt (<) (month_occurrences y m d)"
  unfolding month_occurrences_def
  by (rule sorted_wrt_filter) (simp add: sorted_wrt_iff_nth_less)


section \<open>Patterns of kind 1\<close>

lemma parse_type1_fields:
  "type1_fields p = Some (off, wd, w) \<Longrightarrow> parse_type1 p = Inr (off, wd - 1, w)"
  by (auto simp: type1_fields_def parse_type1_def split: list.splits option.splits if_splits)

lemma parse_type1_no_fields:
  "type1_fields p = None \<Longrightarrow> \<exists>m. parse_type1 p = Inl (ValueError (Invalid_Type1 m))"
  by (auto simp: type1_fields_def parse_type1_def Let_def
      split: list.splits option.splits if_splits)

lemma py_int_tokens:
  "py_int ''1'' = Some 1" "py_int ''2'' = Some 2" "py_int ''3'' = Some 3"
  by code_simp+

lemma py_index_last: "xs \<noteq> [] \<Longrightarrow> py_index xs (- 1) = Inr (last xs)"
  by (cases xs rule: rev_cases) (auto simp: py_index_def nth_append)

lemma py_index_nth:
  "0 \<le> i \<Longrightarrow> i < int (length xs) \<Longrightarrow> py_index xs i = Inr (xs ! nat i)"
  by (simp add: py_index_def)

lemma target_day_last: "xs \<noteq> [] \<Longrightarrow> target_day xs ''L'' = Inr (last xs)"
  by (simp add: target_day_def py_index_last)

lemma target_day_numeric:
  assumes "w \<in> set [''1'', ''2'', ''3'']" and "xs \<noteq> []"
  shows "target_day xs w =
           Inr (if the (py_int w) - 1 < int (length xs)
                then xs ! nat (the (py_int w) - 1) else last xs)"
  using assms by (auto simp: target_day_def py_int_tokens py_index_last py_index_nth)

lemma target_day_member:
  assumes "w \<in> set [''1'', ''2'', ''3'', ''L'']" and "xs \<noteq> []"
  shows "\<exists>k\<in>set xs. target_day xs w = Inr k"
proof (cases "w = ''L''")
  case True
  then show ?thesis using assms by (simp add: target_day_last)
next
  case False
  then have w: "w \<in> set [''1'', ''2'', ''3'']" using assms by auto
  have "(if the (py_int w) - 1 < int (length xs)
         then xs ! nat (the (py_int w) - 1) else last xs) \<in> set xs"
    using assms(2) w by (auto simp: py_int_tokens)
  then show ?thesis using target_day_numeric [OF w assms(2)] by simp
qed

lemma type1_fields_range:
  "type1_fields p = Some (off, wd, w) \<Longrightarrow>
   1 \<le> wd \<and> wd \<le> 5 \<and> w \<in> set [''1'', ''2'', ''3'', ''L'']"
  by (auto simp: type1_fields_def split: list.splits option.splits if_splits)

lemma new_datetime_first:
  "1 \<le> m \<Longrightarrow> m \<le> 12 \<Longrightarrow>
   new_datetime y m 1 =
     (if MINYEAR \<le> y \<and> y \<le> MAXYEAR then Inr \<lparr>year = y, month = m, day = 1\<rparr>
      else Inl (year_error y))"
  using days_in_month_range [of m y] new_datetime_in_range [of y m 1]
    new_datetime_year_error [of m 1 y]
  by simp

text \<open>
  What \<open>get_target_date\<close> returns for a valid pattern of kind 1: the day chosen from the
  occurrences of the weekday in the shifted month, unless the shifted year is outside the
  range of \<open>datetime\<close>: then the constructor raises.
\<close>

lemma get_target_date_type1:
  assumes f: "type1_fields p = Some (off, wd, w)"
    and s: "get_adjusted_year_month (year sd) (month sd) off = (y, m)"
  shows "\<exists>k\<in>set (month_occurrences y m (wd - 1)).
           target_day (month_occurrences y m (wd - 1)) w = Inr k \<and>
           get_target_date sd p 1 =
             (if MINYEAR \<le> y \<and> y \<le> MAXYEAR then Inr \<lparr>year = y, month = m, day = k\<rparr>
              else Inl (year_error y))"
proof -
  let ?occ = "month_occurrences y m (wd - 1)"
  have m: "1 \<le> m" "m \<le> 12" using shifted_month_range [OF s] by simp_all
  have wd: "0 \<le> wd - 1" "wd - 1 < 7" and w: "w \<in> set [''1'', ''2'', ''3'', ''L'']"
    using type1_fields_range [OF f] by auto
  obtain c where c: "monthcalendar y m = Inr c" "day_occurrences c (wd - 1) = Inr ?occ"
    using monthcalendar_occurrences(1) [OF m wd] by blast
  have "?occ \<noteq> []" using monthcalendar_occurrences(2) [OF m wd, of y] by auto
  then obtain k where k: "k \<in> set ?occ" "target_day ?occ w = Inr k"
    using target_day_member [OF w] by blast
  have kr: "1 \<le> k" "k \<le> days_in_month y m"
    using k(1) by (simp_all add: month_occurrences_member)
  have "get_target_date sd p 1 =
          (if MINYEAR \<le> y \<and> y \<le> MAXYEAR then Inr \<lparr>year = y, month = m, day = k\<rparr>
           else Inl (year_error y))"
    using m kr c k(2)
    by (simp add: get_target_date_def parse_type1_fields [OF f] s and_then_def
        new_datetime_first replace_day_def new_datetime_in_range)
  with k show ?thesis by blast
qed


lemma type1_parse_failure:
  "parse_type1 p = Inl e \<Longrightarrow> get_target_date sd p 1 = Inl e"
  by (simp add: get_target_date_def and_then_def)

lemma type1_error_iff:
  "get_target_date sd p 1 = Inl (ValueError (Invalid_Type1 x)) \<longleftrightarrow>
   parse_type1 p = Inl (ValueError (Invalid_Type1 x))"
proof (cases "type1_fields p")
  case None
  then obtain msg where "parse_type1 p = Inl (ValueError (Invalid_Type1 msg))"
    using parse_type1_no_fields by blast
  then show ?thesis using type1_parse_failure [of p _ sd] by simp
next
  case (Some r)
  obtain off wd w where r: "r = (off, wd, w)" by (cases r)
  obtain y m where s: "get_adjusted_year_month (year sd) (month sd) off = (y, m)"
    by (cases "get_adjusted_year_month (year sd) (month sd) off")
  from get_target_date_type1 [OF Some [unfolded r] s]
  have "get_target_date sd p 1 \<noteq> Inl (ValueError (Invalid_Type1 x))"
    by (auto simp: year_error_def split: if_splits)
  moreover have "parse_type1 p \<noteq> Inl (ValueError (Invalid_Type1 x))"
    using parse_type1_fields [OF Some [unfolded r]] by simp
  ultimately show ?thesis by simp
qed

lemma parse_type1_unpack:
  "parse_type1 p = Inl (ValueError (Invalid_Type1 Unpack)) \<longleftrightarrow>
   length (split_on CHR ''/'' p) \<noteq> 3"
  by (auto simp: parse_type1_def Let_def split: list.splits option.splits if_splits)

lemma parse_type1_three_fields:
  assumes "split_on CHR ''/'' p = [f1, f2, f3]"
  shows "parse_type1 p = Inl (ValueError (Invalid_Type1 Int_Literal)) \<longleftrightarrow>
           py_int f1 = None \<or> py_int f2 = None"
    and "parse_type1 p = Inl (ValueError (Invalid_Type1 Day_Range)) \<longleftrightarrow>
           py_int f1 \<noteq> None \<and> (\<exists>wd. py_int f2 = Some wd \<and> \<not> (1 \<le> wd \<and> wd \<le> 5))"
    and "parse_type1 p = Inl (ValueError (Invalid_Type1 Week_Position)) \<longleftrightarrow>
           py_int f1 \<noteq> None \<and> (\<exists>wd. py_int f2 = Some wd \<and> 1 \<le> wd \<and> wd \<le> 5) \<and>
           f3 \<notin> set [''1'', ''2'', ''3'', ''L'']"
  using assms
  by (auto simp: parse_type1_def Let_def split: option.splits if_splits)

text \<open>
  C5. For every year and month, the days collected from a column Monday to Friday of the
  month grid are the days of the month that fall on that weekday, in ascending order, and
  there are four or five of them. So the indices 0, 1 and 2 of the ordinals 1, 2 and 3 are
  below the length, and \<open>target_day\<close> takes the element at the index: the fallback to the
  last occurrence is not reached.
\<close>

theorem weekday_occurs_four_or_five_times:
  assumes "1 \<le> m" and "m \<le> 12" and "0 \<le> d" and "d \<le> 4"
  shows "\<exists>c occ. monthcalendar y m = Inr c \<and> day_occurrences c d = Inr occ \<and>
           occ = month_occurrences y m d \<and>
           (length occ = 4 \<or> length occ = 5) \<and> sorted_wrt (<) occ \<and>
           1 - 1 < int (length occ) \<and> 2 - 1 < int (length occ) \<and>
           3 - 1 < int (length occ) \<and>
           target_day occ ''1'' = Inr (occ ! 0) \<and>
           target_day occ ''2'' = Inr (occ ! 1) \<and>
           target_day occ ''3'' = Inr (occ ! 2)"
proof -
  let ?occ = "month_occurrences y m d"
  have d: "0 \<le> d" "d < 7" using assms by simp_all
  obtain c where c: "monthcalendar y m = Inr c" "day_occurrences c d = Inr ?occ"
    using monthcalendar_occurrences(1) [OF assms(1,2) d] by blast
  have len: "length ?occ = 4 \<or> length ?occ = 5"
    using monthcalendar_occurrences(2) [OF assms(1,2) d] .
  then have ne: "?occ \<noteq> []" by auto
  have t1: "target_day ?occ ''1'' = Inr (?occ ! 0)"
    using len target_day_numeric [of "''1''" ?occ] ne by (auto simp: py_int_tokens)
  have t2: "target_day ?occ ''2'' = Inr (?occ ! 1)"
    using len target_day_numeric [of "''2''" ?occ] ne by (auto simp: py_int_tokens)
  have t3: "target_day ?occ ''3'' = Inr (?occ ! 2)"
    using len target_day_numeric [of "''3''" ?occ] ne by (auto simp: py_int_tokens)
  have idx: "1 - 1 < int (length ?occ) \<and> 2 - 1 < int (length ?occ) \<and>
             3 - 1 < int (length ?occ)"
    using len by auto
  show ?thesis
    using c len month_occurrences_ascending [of y m d] t1 t2 t3 idx by blast
qed

theorem weekday_occurs_four_or_five_times_witness:
  "(1::int) \<le> 2 \<and> (2::int) \<le> 12 \<and> (0::int) \<le> 3 \<and> (3::int) \<le> 4 \<and>
   monthcalendar 2026 2 =
     Inr [[0, 0, 0, 0, 0, 0, 1], [2, 3, 4, 5, 6, 7, 8], [9, 10, 11, 12, 13, 14, 15],
          [16, 17, 18, 19, 20, 21, 22], [23, 24, 25, 26, 27, 28, 0]] \<and>
   month_occurrences 2026 2 3 = [5, 12, 19, 26] \<and>
   (\<exists>c occ. monthcalendar 2026 2 = Inr c \<and> day_occurrences c 3 = Inr occ \<and>
      occ = [5, 12, 19, 26] \<and> length occ = 4 \<and> target_day occ ''3'' = Inr 19)"
proof -
  have c: "monthcalendar 2026 2 =
     Inr [[0, 0, 0, 0, 0, 0, 1], [2, 3, 4, 5, 6, 7, 8], [9, 10, 11, 12, 13, 14, 15],
          [16, 17, 18, 19, 20, 21, 22], [23, 24, 25, 26, 27, 28, 0]]"
    by code_simp
  have o: "month_occurrences 2026 2 3 = [5, 12, 19, 26]"
    by code_simp
  from weekday_occurs_four_or_five_times [of 2 3 2026] c o show ?thesis
    by auto
qed


text \<open>
  C4, as amended. For a valid pattern of kind 1 whose ordinal token is numeric and a
  reference date such that the shifted year lies in the range \<open>MINYEAR..MAXYEAR\<close> of
  \<open>datetime\<close>, with \<open>idx = ordinal - 1\<close> and the occurrences of the weekday in the
  shifted month: \<open>get_target_date\<close> returns the date of the shifted month whose day is
  \<open>occurrences[idx]\<close> if \<open>idx\<close> is below the length and the last occurrence
  otherwise. The selection is the same on every list that is not empty, and on any list
  with fewer than three entries the tokens \<open>3\<close> and \<open>L\<close> select the same entry.
\<close>

theorem numeric_ordinal_selection:
  assumes "type1_fields p = Some (off, wd, w)" and "w \<noteq> ''L''"
    and "get_adjusted_year_month (year sd) (month sd) off = (y, m)"
    and "MINYEAR \<le> y" and "y \<le> MAXYEAR"
  shows "\<exists>c occ ordinal.
           py_int w = Some ordinal \<and> monthcalendar y m = Inr c \<and>
           day_occurrences c (wd - 1) = Inr occ \<and> occ = month_occurrences y m (wd - 1) \<and>
           target_day occ w =
             Inr (if ordinal - 1 < int (length occ) then occ ! nat (ordinal - 1)
                  else last occ) \<and>
           get_target_date sd p 1 =
             Inr \<lparr>year = y, month = m,
                  day = (if ordinal - 1 < int (length occ) then occ ! nat (ordinal - 1)
                         else last occ)\<rparr> \<and>
           (xs \<noteq> [] \<longrightarrow>
              target_day xs w =
                Inr (if ordinal - 1 < int (length xs) then xs ! nat (ordinal - 1)
                     else last xs)) \<and>
           (length xs < 3 \<longrightarrow> target_day xs ''3'' = target_day xs ''L'')"
proof -
  let ?occ = "month_occurrences y m (wd - 1)"
  have m: "1 \<le> m" "m \<le> 12" using shifted_month_range [OF assms(3)] by simp_all
  have wd: "0 \<le> wd - 1" "wd - 1 < 7" and w: "w \<in> set [''1'', ''2'', ''3'']"
    using type1_fields_range [OF assms(1)] assms(2) by auto
  obtain ordinal where o: "py_int w = Some ordinal"
    using w by (auto simp: py_int_tokens)
  obtain c where c: "monthcalendar y m = Inr c" "day_occurrences c (wd - 1) = Inr ?occ"
    using monthcalendar_occurrences(1) [OF m wd] by blast
  have ne: "?occ \<noteq> []" using monthcalendar_occurrences(2) [OF m wd, of y] by auto
  let ?k = "if ordinal - 1 < int (length ?occ) then ?occ ! nat (ordinal - 1) else last ?occ"
  have t: "target_day ?occ w = Inr ?k"
    using target_day_numeric [OF w ne] o by simp
  have g: "get_target_date sd p 1 = Inr \<lparr>year = y, month = m, day = ?k\<rparr>"
    using get_target_date_type1 [OF assms(1,3)] t assms(4,5) by auto
  have x: "xs \<noteq> [] \<longrightarrow>
             target_day xs w =
               Inr (if ordinal - 1 < int (length xs) then xs ! nat (ordinal - 1)
                    else last xs)"
    using target_day_numeric [OF w, of xs] o by simp
  have l: "length xs < 3 \<longrightarrow> target_day xs ''3'' = target_day xs ''L''"
    by (simp add: target_day_def py_int_tokens)
  show ?thesis using o c t g x l by blast
qed

theorem numeric_ordinal_selection_witness:
  "type1_fields ''0/1/3'' = Some (0, 1, ''3'') \<and> ''3'' \<noteq> ''L'' \<and>
   get_adjusted_year_month 2024 11 0 = (2024, 11) \<and>
   MINYEAR \<le> 2024 \<and> 2024 \<le> MAXYEAR \<and>
   month_occurrences 2024 11 (1 - 1) = [4, 11, 18, 25] \<and>
   get_target_date \<lparr>year = 2024, month = 11, day = 20\<rparr> ''0/1/3'' 1 =
     Inr \<lparr>year = 2024, month = 11, day = 18\<rparr> \<and>
   [7, 14] \<noteq> ([] :: int list) \<and> length [7, 14 :: int] < 3 \<and>
   target_day [7, 14] ''3'' = Inr 14 \<and> target_day [7, 14] ''L'' = Inr 14"
proof -
  have f: "type1_fields ''0/1/3'' = Some (0, 1, ''3'')" by code_simp
  have n: "''3'' \<noteq> ''L''" by simp
  have s: "get_adjusted_year_month (year \<lparr>year = 2024, month = 11, day = 20\<rparr>)
             (month \<lparr>year = 2024, month = 11, day = 20\<rparr>) 0 = (2024, 11)"
    by (simp add: get_adjusted_year_month_closed)
  have occ: "month_occurrences 2024 11 (1 - 1) = [4, 11, 18, 25]" by code_simp
  have r: "MINYEAR \<le> 2024" "2024 \<le> MAXYEAR" by (simp_all add: MINYEAR_def MAXYEAR_def)
  have i: "py_int ''3'' = Some 3" by (simp add: py_int_tokens)
  have l: "target_day [7, 14] ''L'' = Inr 14" by (simp add: target_day_last)
  from numeric_ordinal_selection [OF f n s r, where xs = "[7, 14]"]
  show ?thesis using f s occ r i l by auto
qed

text \<open>
  The claim C4 as stated fails: \<open>-1/1/3\<close> is a valid pattern with the numeric ordinal
  3, but with the valid reference date 0001-01-01 the shifted year is 0, the constructor of
  \<open>datetime\<close> raises before the occurrences are collected, and no day is selected.
\<close>

theorem numeric_ordinal_selection_counterexample:
  "valid_date \<lparr>year = 1, month = 1, day = 1\<rparr> \<and>
   type1_fields ''-1/1/3'' = Some (- 1, 1, ''3'') \<and> ''3'' \<noteq> ''L'' \<and>
   get_adjusted_year_month 1 1 (- 1) = (0, 12) \<and>
   get_target_date \<lparr>year = 1, month = 1, day = 1\<rparr> ''-1/1/3'' 1 =
     Inl (ValueError Date_Field)"
  by code_simp

text \<open>
  C1, as amended. For a valid pattern of kind 1 and a reference date such that the
  shifted year lies in the range \<open>MINYEAR..MAXYEAR\<close> of \<open>datetime\<close>,
  \<open>get_target_date\<close> returns a valid date whose weekday is the requested one (1 is Monday,
  so the weekday of the date, counted from 0, is \<open>wd - 1\<close>) and whose year and month are the
  shifted ones.
\<close>

theorem type1_weekday_and_month:
  assumes "type1_fields p = Some (off, wd, w)"
    and "get_adjusted_year_month (year sd) (month sd) off = (y, m)"
    and "MINYEAR \<le> y" and "y \<le> MAXYEAR"
  shows "\<exists>dt. get_target_date sd p 1 = Inr dt \<and> weekday dt + 1 = wd \<and>
              (year dt, month dt) = get_adjusted_year_month (year sd) (month sd) off \<and>
              valid_date dt"
proof -
  obtain k where k: "k \<in> set (month_occurrences y m (wd - 1))"
    and g: "get_target_date sd p 1 = Inr \<lparr>year = y, month = m, day = k\<rparr>"
    using get_target_date_type1 [OF assms(1,2)] assms(3,4) by auto
  have m: "1 \<le> m" "m \<le> 12" using shifted_month_range [OF assms(2)] by simp_all
  from k have "1 \<le> k" "k \<le> days_in_month y m"
    and "weekday \<lparr>year = y, month = m, day = k\<rparr> = wd - 1"
    by (simp_all add: month_occurrences_member)
  then show ?thesis using g m assms(2,3,4) by (simp add: valid_date_def)
qed

theorem type1_weekday_and_month_witness:
  "type1_fields ''-2/3/2'' = Some (- 2, 3, ''2'') \<and>
   get_adjusted_year_month 2024 11 (- 2) = (2024, 9) \<and>
   MINYEAR \<le> 2024 \<and> 2024 \<le> MAXYEAR \<and>
   (\<exists>dt. get_target_date \<lparr>year = 2024, month = 11, day = 20\<rparr> ''-2/3/2'' 1 = Inr dt \<and>
      weekday dt + 1 = 3 \<and> (year dt, month dt) = (2024, 9))"
proof -
  have f: "type1_fields ''-2/3/2'' = Some (- 2, 3, ''2'')" by code_simp
  have s: "get_adjusted_year_month (year \<lparr>year = 2024, month = 11, day = 20\<rparr>)
             (month \<lparr>year = 2024, month = 11, day = 20\<rparr>) (- 2) = (2024, 9)"
    by (simp add: get_adjusted_year_month_closed)
  have r: "MINYEAR \<le> 2024" "2024 \<le> MAXYEAR" by (simp_all add: MINYEAR_def MAXYEAR_def)
  from type1_weekday_and_month [OF f s r] show ?thesis using f s r by auto
qed

text \<open>
  The claim C1 as stated fails: the reference date 0001-01-01 is a valid \<open>datetime\<close> and
  \<open>-1/1/1\<close> is a valid pattern, but the shifted year is 0 and the constructor of
  \<open>datetime\<close> raises.
\<close>

theorem type1_weekday_and_month_counterexample:
  "valid_date \<lparr>year = 1, month = 1, day = 1\<rparr> \<and>
   type1_fields ''-1/1/1'' = Some (- 1, 1, ''1'') \<and>
   get_target_date \<lparr>year = 1, month = 1, day = 1\<rparr> ''-1/1/1'' 1 =
     Inl (ValueError Date_Field)"
  by code_simp


text \<open>
  C7, as amended. For kind 1, \<open>get_target_date\<close> fails in the first \<open>try\<close> block, whatever
  the reference date is, exactly in these cases: the pattern does not split into three
  fields (\<open>Unpack\<close>); the month offset or the weekday field is rejected by \<open>int()\<close>
  (\<open>Int_Literal\<close>); the weekday is an integer outside \<open>1..5\<close> (\<open>Day_Range\<close>); the
  ordinal is none of the four tokens (\<open>Week_Position\<close>). For a well-formed pattern
  whose shifted year lies in the range \<open>MINYEAR..MAXYEAR\<close> of \<open>datetime\<close> the call does
  not fail. Below, \<open>fo\<close>, \<open>fw\<close> and \<open>fp\<close> are the three fields: month offset, weekday
  and week position.
\<close>

theorem type1_failure_conditions:
  "(get_target_date sd p 1 = Inl (ValueError (Invalid_Type1 Unpack)) \<longleftrightarrow>
      length (split_on CHR ''/'' p) \<noteq> 3) \<and>
   (split_on CHR ''/'' p = [fo, fw, fp] \<longrightarrow>
      (get_target_date sd p 1 = Inl (ValueError (Invalid_Type1 Int_Literal)) \<longleftrightarrow>
         py_int fo = None \<or> py_int fw = None) \<and>
      (get_target_date sd p 1 = Inl (ValueError (Invalid_Type1 Day_Range)) \<longleftrightarrow>
         py_int fo \<noteq> None \<and> (\<exists>wd. py_int fw = Some wd \<and> \<not> (1 \<le> wd \<and> wd \<le> 5))) \<and>
      (get_target_date sd p 1 = Inl (ValueError (Invalid_Type1 Week_Position)) \<longleftrightarrow>
         py_int fo \<noteq> None \<and> (\<exists>wd. py_int fw = Some wd \<and> 1 \<le> wd \<and> wd \<le> 5) \<and>
         fp \<notin> set [''1'', ''2'', ''3'', ''L''])) \<and>
   (type1_fields p = None \<longrightarrow>
      (\<exists>msg. get_target_date sd p 1 = Inl (ValueError (Invalid_Type1 msg)) \<and>
             msg \<in> set [Unpack, Int_Literal, Day_Range, Week_Position]) \<and>
      get_target_date sd' p 1 = get_target_date sd p 1) \<and>
   (type1_fields p = Some (off, wd, w) \<and>
    get_adjusted_year_month (year sd) (month sd) off = (y, m) \<and>
    MINYEAR \<le> y \<and> y \<le> MAXYEAR \<longrightarrow>
      (\<exists>dt. get_target_date sd p 1 = Inr dt))"
proof -
  have a: "get_target_date sd p 1 = Inl (ValueError (Invalid_Type1 Unpack)) \<longleftrightarrow>
             length (split_on CHR ''/'' p) \<noteq> 3"
    by (simp only: type1_error_iff parse_type1_unpack)
  have b: "split_on CHR ''/'' p = [fo, fw, fp] \<longrightarrow>
      (get_target_date sd p 1 = Inl (ValueError (Invalid_Type1 Int_Literal)) \<longleftrightarrow>
         py_int fo = None \<or> py_int fw = None) \<and>
      (get_target_date sd p 1 = Inl (ValueError (Invalid_Type1 Day_Range)) \<longleftrightarrow>
         py_int fo \<noteq> None \<and> (\<exists>wd. py_int fw = Some wd \<and> \<not> (1 \<le> wd \<and> wd \<le> 5))) \<and>
      (get_target_date sd p 1 = Inl (ValueError (Invalid_Type1 Week_Position)) \<longleftrightarrow>
         py_int fo \<noteq> None \<and> (\<exists>wd. py_int fw = Some wd \<and> 1 \<le> wd \<and> wd \<le> 5) \<and>
         fp \<notin> set [''1'', ''2'', ''3'', ''L''])"
  proof
    assume s: "split_on CHR ''/'' p = [fo, fw, fp]"
    show "(get_target_date sd p 1 = Inl (ValueError (Invalid_Type1 Int_Literal)) \<longleftrightarrow>
         py_int fo = None \<or> py_int fw = None) \<and>
      (get_target_date sd p 1 = Inl (ValueError (Invalid_Type1 Day_Range)) \<longleftrightarrow>
         py_int fo \<noteq> None \<and> (\<exists>wd. py_int fw = Some wd \<and> \<not> (1 \<le> wd \<and> wd \<le> 5))) \<and>
      (get_target_date sd p 1 = Inl (ValueError (Invalid_Type1 Week_Position)) \<longleftrightarrow>
         py_int fo \<noteq> None \<and> (\<exists>wd. py_int fw = Some wd \<and> 1 \<le> wd \<and> wd \<le> 5) \<and>
         fp \<notin> set [''1'', ''2'', ''3'', ''L''])"
      unfolding type1_error_iff
      by (intro conjI) (rule parse_type1_three_fields [OF s])+
  qed
  have c: "type1_fields p = None \<longrightarrow>
      (\<exists>msg. get_target_date sd p 1 = Inl (ValueError (Invalid_Type1 msg)) \<and>
             msg \<in> set [Unpack, Int_Literal, Day_Range, Week_Position]) \<and>
      get_target_date sd' p 1 = get_target_date sd p 1"
  proof
    assume n: "type1_fields p = None"
    then obtain msg where e: "parse_type1 p = Inl (ValueError (Invalid_Type1 msg))"
      using parse_type1_no_fields by blast
    then have "msg \<in> set [Unpack, Int_Literal, Day_Range, Week_Position]"
      by (auto simp: parse_type1_def Let_def split: list.splits option.splits if_splits)
    then show "(\<exists>msg. get_target_date sd p 1 = Inl (ValueError (Invalid_Type1 msg)) \<and>
             msg \<in> set [Unpack, Int_Literal, Day_Range, Week_Position]) \<and>
      get_target_date sd' p 1 = get_target_date sd p 1"
      using type1_parse_failure [OF e] by auto
  qed
  have d: "type1_fields p = Some (off, wd, w) \<and>
    get_adjusted_year_month (year sd) (month sd) off = (y, m) \<and>
    MINYEAR \<le> y \<and> y \<le> MAXYEAR \<longrightarrow>
      (\<exists>dt. get_target_date sd p 1 = Inr dt)"
  proof
    assume h: "type1_fields p = Some (off, wd, w) \<and>
      get_adjusted_year_month (year sd) (month sd) off = (y, m) \<and>
      MINYEAR \<le> y \<and> y \<le> MAXYEAR"
    then obtain k where "get_target_date sd p 1 =
        (if MINYEAR \<le> y \<and> y \<le> MAXYEAR then Inr \<lparr>year = y, month = m, day = k\<rparr>
         else Inl (year_error y))"
      using get_target_date_type1 [of p off wd w sd y m] by blast
    with h show "\<exists>dt. get_target_date sd p 1 = Inr dt" by simp
  qed
  show ?thesis using a b c d by blast
qed

theorem type1_failure_conditions_witness:
  "split_on CHR ''/'' ''0/9/1'' = [''0'', ''9'', ''1''] \<and>
   type1_fields ''0/9/1'' = None \<and>
   get_target_date \<lparr>year = 2024, month = 11, day = 20\<rparr> ''0/9/1'' 1 =
     Inl (ValueError (Invalid_Type1 Day_Range)) \<and>
   type1_fields ''1/5/L'' = Some (1, 5, ''L'') \<and>
   get_adjusted_year_month 2024 11 1 = (2024, 12) \<and>
   MINYEAR \<le> 2024 \<and> 2024 \<le> MAXYEAR \<and>
   (\<exists>dt. get_target_date \<lparr>year = 2024, month = 11, day = 20\<rparr> ''1/5/L'' 1 = Inr dt)"
proof -
  have s: "split_on CHR ''/'' ''0/9/1'' = [''0'', ''9'', ''1'']" by code_simp
  have n: "type1_fields ''0/9/1'' = None" by code_simp
  have i: "py_int ''0'' = Some 0" "py_int ''9'' = Some 9" by code_simp+
  have f: "type1_fields ''1/5/L'' = Some (1, 5, ''L'')" by code_simp
  have g: "get_adjusted_year_month (year \<lparr>year = 2024, month = 11, day = 20\<rparr>)
             (month \<lparr>year = 2024, month = 11, day = 20\<rparr>) 1 = (2024, 12)"
    by (simp add: get_adjusted_year_month_closed)
  have r: "MINYEAR \<le> 2024 \<and> 2024 \<le> MAXYEAR" by (simp add: MINYEAR_def MAXYEAR_def)
  from type1_failure_conditions
         [where p = "''0/9/1''" and fo = "''0''" and fw = "''9''" and fp = "''1''"
            and sd = "\<lparr>year = 2024, month = 11, day = 20\<rparr>"]
       s i
  have 1: "get_target_date \<lparr>year = 2024, month = 11, day = 20\<rparr> ''0/9/1'' 1 =
     Inl (ValueError (Invalid_Type1 Day_Range))"
    by simp
  from type1_failure_conditions
         [where p = "''1/5/L''" and off = 1 and wd = 5 and w = "''L''"
            and sd = "\<lparr>year = 2024, month = 11, day = 20\<rparr>" and y = 2024 and m = 12]
       f g r
  have 2: "\<exists>dt. get_target_date \<lparr>year = 2024, month = 11, day = 20\<rparr> ''1/5/L'' 1 = Inr dt"
    by simp
  show ?thesis using s n f g r 1 2 by simp
qed

text \<open>
  The claim C7 as stated fails twice. The weekday field \<open>x\<close> is not an integer outside
  \<open>1..5\<close>, yet the call fails; and a well-formed pattern fails when the shifted year
  leaves the range of \<open>datetime\<close>.
\<close>

theorem type1_failure_conditions_counterexample:
  "split_on CHR ''/'' ''0/x/1'' = [''0'', ''x'', ''1''] \<and> py_int ''0'' = Some 0 \<and>
   py_int ''x'' = None \<and> ''1'' \<in> set [''1'', ''2'', ''3'', ''L''] \<and>
   get_target_date \<lparr>year = 2024, month = 11, day = 20\<rparr> ''0/x/1'' 1 =
     Inl (ValueError (Invalid_Type1 Int_Literal)) \<and>
   valid_date \<lparr>year = 9999, month = 12, day = 31\<rparr> \<and>
   type1_fields ''1/1/1'' = Some (1, 1, ''1'') \<and>
   get_target_date \<lparr>year = 9999, month = 12, day = 31\<rparr> ''1/1/1'' 1 =
     Inl (ValueError Date_Field)"
  by code_simp


section \<open>Patterns of kind 2\<close>

lemma endswith_single: "endswith p [c] \<longleftrightarrow> p \<noteq> [] \<and> last p = c"
  by (cases p rule: rev_cases) (auto simp: endswith_def)

lemma parse_type2_fields:
  "type2_fields p = Some (off, e) \<Longrightarrow>
   parse_type2 p = Inr (off, e = CHR ''F'') \<and> (e = CHR ''F'' \<or> e = CHR ''L'')"
  by (auto simp: type2_fields_def parse_type2_def endswith_single
      split: option.splits if_splits)

lemma parse_type2_no_fields:
  "type2_fields p = None \<Longrightarrow>
   parse_type2 p =
     Inl (ValueError (Invalid_Type2
       (if p = [] \<or> (last p \<noteq> CHR ''F'' \<and> last p \<noteq> CHR ''L'') then Suffix
        else Int_Literal))) \<and>
   (p \<noteq> [] \<and> (last p = CHR ''F'' \<or> last p = CHR ''L'') \<longrightarrow> py_int (butlast p) = None)"
  by (auto simp: type2_fields_def parse_type2_def endswith_single
      split: option.splits if_splits)

lemma type2_parse_failure:
  "parse_type2 p = Inl e \<Longrightarrow> get_target_date sd p 2 = Inl e"
  by (simp add: get_target_date_def and_then_def)

text \<open>
  What \<open>get_target_date\<close> returns for a valid pattern of kind 2: day 1 or the last day of
  the shifted month, unless the shifted year is outside the range of \<open>datetime\<close>: then
  the constructor raises.
\<close>

lemma get_target_date_type2:
  assumes f: "type2_fields p = Some (off, e)"
    and s: "get_adjusted_year_month (year sd) (month sd) off = (y, m)"
  shows "get_target_date sd p 2 =
           (if MINYEAR \<le> y \<and> y \<le> MAXYEAR
            then Inr \<lparr>year = y, month = m,
                      day = (if e = CHR ''F'' then 1 else days_in_month y m)\<rparr>
            else Inl (year_error y))"
proof -
  have m: "1 \<le> m" "m \<le> 12" using shifted_month_range [OF s] by simp_all
  have n: "28 \<le> days_in_month y m" using days_in_month_range [OF m] by simp
  have l: "new_datetime y m (days_in_month y m) =
             (if MINYEAR \<le> y \<and> y \<le> MAXYEAR
              then Inr \<lparr>year = y, month = m, day = days_in_month y m\<rparr>
              else Inl (year_error y))"
    using m n days_in_month_range [OF m, of y]
      new_datetime_in_range [of y m "days_in_month y m"]
      new_datetime_year_error [of m "days_in_month y m" y]
    by simp
  show ?thesis
    using parse_type2_fields [OF f] m l
    by (simp add: get_target_date_def s and_then_def new_datetime_first monthrange_value)
qed

lemma type2_fields_suffix:
  "type2_fields p = Some (off, e) \<Longrightarrow>
   p \<noteq> [] \<and> last p = e \<and> (e = CHR ''F'' \<or> e = CHR ''L'') \<and> py_int (butlast p) = Some off"
  by (auto simp: type2_fields_def split: option.splits if_splits)

text \<open>
  C2, as amended. For a valid pattern of kind 2 and a reference date such that the
  shifted year lies in the range \<open>MINYEAR..MAXYEAR\<close> of \<open>datetime\<close>, the date returned
  has the shifted year and month; with the final letter \<open>F\<close> its day is 1, with \<open>L\<close> its
  day is the length of the month (28, 29, 30 or 31, and 29 exactly in February of a leap
  year), which is the last day: the following day number is no date of that month.
\<close>

theorem type2_first_and_last_day:
  assumes "type2_fields p = Some (off, e)"
    and "get_adjusted_year_month (year sd) (month sd) off = (y, m)"
    and "MINYEAR \<le> y" and "y \<le> MAXYEAR"
  shows "\<exists>dt. get_target_date sd p 2 = Inr dt \<and> valid_date dt \<and>
              (year dt, month dt) = get_adjusted_year_month (year sd) (month sd) off \<and>
              (e = CHR ''F'' \<longrightarrow> day dt = 1) \<and>
              (e = CHR ''L'' \<longrightarrow>
                 day dt = month_length y m \<and>
                 day dt \<in> set [28, 29, 30, 31] \<and>
                 (day dt = 29 \<longleftrightarrow>
                    m = 2 \<and> y mod 4 = 0 \<and> (y mod 100 \<noteq> 0 \<or> y mod 400 = 0)) \<and>
                 new_datetime y m (day dt + 1) = Inl (ValueError Date_Field))"
proof -
  let ?d = "if e = CHR ''F'' then 1 else days_in_month y m"
  have m: "1 \<le> m" "m \<le> 12" using shifted_month_range [OF assms(2)] by simp_all
  have g: "get_target_date sd p 2 = Inr \<lparr>year = y, month = m, day = ?d\<rparr>"
    using get_target_date_type2 [OF assms(1,2)] assms(3,4) by simp
  have len: "days_in_month y m = month_length y m"
    using days_in_month_length [OF m] .
  have v: "valid_date \<lparr>year = y, month = m, day = ?d\<rparr>"
    using m assms(3,4) days_in_month_range [OF m, of y] by (simp add: valid_date_def)
  have r: "month_length y m \<in> set [28, 29, 30, 31]"
    by (simp add: month_length_def)
  have l: "month_length y m = 29 \<longleftrightarrow>
             m = 2 \<and> y mod 4 = 0 \<and> (y mod 100 \<noteq> 0 \<or> y mod 400 = 0)"
    by (simp add: month_length_def)
  have "fits_c_int y \<and> fits_c_int m \<and> fits_c_int (days_in_month y m + 1)"
    using m assms(3,4) days_in_month_range [OF m, of y]
    by (simp add: fits_c_int_def INT_MIN_def INT_MAX_def MINYEAR_def MAXYEAR_def)
  then have n: "new_datetime y m (days_in_month y m + 1) = Inl (ValueError Date_Field)"
    by (simp add: new_datetime_def)
  have "e = CHR ''L'' \<longrightarrow> e \<noteq> CHR ''F''" by auto
  then show ?thesis
    using g v assms(2) len r l n by auto
qed

theorem type2_first_and_last_day_witness:
  "type2_fields ''-9L'' = Some (- 9, CHR ''L'') \<and>
   get_adjusted_year_month 2024 11 (- 9) = (2024, 2) \<and>
   MINYEAR \<le> 2024 \<and> 2024 \<le> MAXYEAR \<and>
   get_target_date \<lparr>year = 2024, month = 11, day = 20\<rparr> ''-9L'' 2 =
     Inr \<lparr>year = 2024, month = 2, day = 29\<rparr> \<and>
   month_length 2024 2 = 29"
proof -
  have f: "type2_fields ''-9L'' = Some (- 9, CHR ''L'')" by code_simp
  have s: "get_adjusted_year_month (year \<lparr>year = 2024, month = 11, day = 20\<rparr>)
             (month \<lparr>year = 2024, month = 11, day = 20\<rparr>) (- 9) = (2024, 2)"
    by (simp add: get_adjusted_year_month_closed)
  have r: "MINYEAR \<le> 2024" "2024 \<le> MAXYEAR" by (simp_all add: MINYEAR_def MAXYEAR_def)
  have l: "month_length 2024 2 = 29" by (simp add: month_length_def)
  from type2_first_and_last_day [OF f s r] obtain dt
    where "get_target_date \<lparr>year = 2024, month = 11, day = 20\<rparr> ''-9L'' 2 = Inr dt"
      and "(year dt, month dt) = (2024, 2)" and "day dt = 29"
    using s l by auto
  then have "get_target_date \<lparr>year = 2024, month = 11, day = 20\<rparr> ''-9L'' 2 =
     Inr \<lparr>year = 2024, month = 2, day = 29\<rparr>"
    by (cases dt) simp
  then show ?thesis using f s r l by simp
qed

text \<open>
  The claim C2 as stated fails: the reference date 0001-01-01 is a valid \<open>datetime\<close> and
  \<open>-1F\<close> and \<open>-1L\<close> are valid patterns, but the shifted year is 0 and the constructor of
  \<open>datetime\<close> raises.
\<close>

theorem type2_first_and_last_day_counterexample:
  "valid_date \<lparr>year = 1, month = 1, day = 1\<rparr> \<and>
   type2_fields ''-1F'' = Some (- 1, CHR ''F'') \<and>
   type2_fields ''-1L'' = Some (- 1, CHR ''L'') \<and>
   get_target_date \<lparr>year = 1, month = 1, day = 1\<rparr> ''-1F'' 2 = Inl (ValueError Date_Field) \<and>
   get_target_date \<lparr>year = 1, month = 1, day = 1\<rparr> ''-1L'' 2 = Inl (ValueError Date_Field)"
  by code_simp

text \<open>
  C8, as amended. For kind 2, \<open>get_target_date\<close> fails in the second \<open>try\<close> block,
  whatever the reference date is, exactly in these cases: the pattern is empty or its last
  character is neither \<open>F\<close> nor \<open>L\<close> (\<open>Suffix\<close>); the part before the final letter is
  rejected by \<open>int()\<close> (\<open>Int_Literal\<close>). For a well-formed pattern whose shifted year
  lies in the range \<open>MINYEAR..MAXYEAR\<close> of \<open>datetime\<close> the call does not fail.
\<close>

theorem type2_failure_conditions:
  "(get_target_date sd p 2 = Inl (ValueError (Invalid_Type2 Suffix)) \<longleftrightarrow>
      p = [] \<or> (last p \<noteq> CHR ''F'' \<and> last p \<noteq> CHR ''L'')) \<and>
   (get_target_date sd p 2 = Inl (ValueError (Invalid_Type2 Int_Literal)) \<longleftrightarrow>
      p \<noteq> [] \<and> (last p = CHR ''F'' \<or> last p = CHR ''L'') \<and> py_int (butlast p) = None) \<and>
   (type2_fields p = None \<longrightarrow>
      (\<exists>msg. get_target_date sd p 2 = Inl (ValueError (Invalid_Type2 msg)) \<and>
             msg \<in> set [Suffix, Int_Literal]) \<and>
      get_target_date sd' p 2 = get_target_date sd p 2) \<and>
   (type2_fields p = Some (off, e) \<and>
    get_adjusted_year_month (year sd) (month sd) off = (y, m) \<and>
    MINYEAR \<le> y \<and> y \<le> MAXYEAR \<longrightarrow>
      (\<exists>dt. get_target_date sd p 2 = Inr dt))"
proof (cases "type2_fields p")
  case None
  let ?msg = "if p = [] \<or> (last p \<noteq> CHR ''F'' \<and> last p \<noteq> CHR ''L'') then Suffix
              else Int_Literal"
  have e: "parse_type2 p = Inl (ValueError (Invalid_Type2 ?msg))"
    and i: "p \<noteq> [] \<and> (last p = CHR ''F'' \<or> last p = CHR ''L'') \<longrightarrow> py_int (butlast p) = None"
    using parse_type2_no_fields [OF None] by simp_all
  have "get_target_date sd p 2 = Inl (ValueError (Invalid_Type2 ?msg))"
    and "get_target_date sd' p 2 = Inl (ValueError (Invalid_Type2 ?msg))"
    using type2_parse_failure [OF e] by simp_all
  then show ?thesis using None i by auto
next
  case (Some r)
  obtain off' e' where r: "r = (off', e')" by (cases r)
  obtain y' m' where s: "get_adjusted_year_month (year sd) (month sd) off' = (y', m')"
    by (cases "get_adjusted_year_month (year sd) (month sd) off'")
  have f: "type2_fields p = Some (off', e')" using Some r by simp
  note g = get_target_date_type2 [OF f s]
  note x = type2_fields_suffix [OF f]
  have a: "get_target_date sd p 2 \<noteq> Inl (ValueError (Invalid_Type2 Suffix))"
    and b: "get_target_date sd p 2 \<noteq> Inl (ValueError (Invalid_Type2 Int_Literal))"
    using g by (auto simp: year_error_def split: if_splits)
  have d: "type2_fields p = Some (off, e) \<and>
    get_adjusted_year_month (year sd) (month sd) off = (y, m) \<and>
    MINYEAR \<le> y \<and> y \<le> MAXYEAR \<longrightarrow>
      (\<exists>dt. get_target_date sd p 2 = Inr dt)"
  proof
    assume h: "type2_fields p = Some (off, e) \<and>
      get_adjusted_year_month (year sd) (month sd) off = (y, m) \<and>
      MINYEAR \<le> y \<and> y \<le> MAXYEAR"
    then have "off' = off" "e' = e" "y' = y" "m' = m" using f s by simp_all
    with h show "\<exists>dt. get_target_date sd p 2 = Inr dt"
      using g by simp
  qed
  show ?thesis using a b d x f by auto
qed

theorem type2_failure_conditions_witness:
  "type2_fields ''3X'' = None \<and>
   get_target_date \<lparr>year = 2024, month = 11, day = 20\<rparr> ''3X'' 2 =
     Inl (ValueError (Invalid_Type2 Suffix)) \<and>
   type2_fields ''1L'' = Some (1, CHR ''L'') \<and>
   get_adjusted_year_month 2024 11 1 = (2024, 12) \<and>
   MINYEAR \<le> 2024 \<and> 2024 \<le> MAXYEAR \<and>
   (\<exists>dt. get_target_date \<lparr>year = 2024, month = 11, day = 20\<rparr> ''1L'' 2 = Inr dt)"
proof -
  have n: "type2_fields ''3X'' = None" by code_simp
  have f: "type2_fields ''1L'' = Some (1, CHR ''L'')" by code_simp
  have g: "get_adjusted_year_month (year \<lparr>year = 2024, month = 11, day = 20\<rparr>)
             (month \<lparr>year = 2024, month = 11, day = 20\<rparr>) 1 = (2024, 12)"
    by (simp add: get_adjusted_year_month_closed)
  have r: "MINYEAR \<le> 2024 \<and> 2024 \<le> MAXYEAR" by (simp add: MINYEAR_def MAXYEAR_def)
  from type2_failure_conditions
         [where p = "''3X''" and sd = "\<lparr>year = 2024, month = 11, day = 20\<rparr>"]
  have 1: "get_target_date \<lparr>year = 2024, month = 11, day = 20\<rparr> ''3X'' 2 =
     Inl (ValueError (Invalid_Type2 Suffix))"
    by simp
  from type2_failure_conditions
         [where p = "''1L''" and off = 1 and e = "CHR ''L''"
            and sd = "\<lparr>year = 2024, month = 11, day = 20\<rparr>" and y = 2024 and m = 12]
       f g r
  have 2: "\<exists>dt. get_target_date \<lparr>year = 2024, month = 11, day = 20\<rparr> ''1L'' 2 = Inr dt"
    by simp
  show ?thesis using n f g r 1 2 by simp
qed

text \<open>
  The claim C8 as stated fails: \<open>1F\<close> is a well-formed pattern of kind 2, but with the
  valid reference date 9999-12-31 the shifted year is 10000 and the call fails.
\<close>

theorem type2_failure_conditions_counterexample:
  "valid_date \<lparr>year = 9999, month = 12, day = 31\<rparr> \<and>
   type2_fields ''1F'' = Some (1, CHR ''F'') \<and>
   get_target_date \<lparr>year = 9999, month = 12, day = 31\<rparr> ''1F'' 2 =
     Inl (ValueError Date_Field)"
  by code_simp

section \<open>The scenarios of the specification\<close>

text \<open>
  C9. With the reference date 2024-11-20, the five patterns of the specification resolve
  to the dates it gives.
\<close>

theorem reference_scenarios:
  "get_target_date \<lparr>year = 2024, month = 11, day = 20\<rparr> ''0/1/1'' 1 =
     Inr \<lparr>year = 2024, month = 11, day = 4\<rparr> \<and>
   get_target_date \<lparr>year = 2024, month = 11, day = 20\<rparr> ''-1/5/L'' 1 =
     Inr \<lparr>year = 2024, month = 10, day = 25\<rparr> \<and>
   get_target_date \<lparr>year = 2024, month = 11, day = 20\<rparr> ''-2/3/2'' 1 =
     Inr \<lparr>year = 2024, month = 9, day = 11\<rparr> \<and>
   get_target_date \<lparr>year = 2024, month = 11, day = 20\<rparr> ''-1F'' 2 =
     Inr \<lparr>year = 2024, month = 10, day = 1\<rparr> \<and>
   get_target_date \<lparr>year = 2024, month = 11, day = 20\<rparr> ''1L'' 2 =
     Inr \<lparr>year = 2024, month = 12, day = 31\<rparr>"
  by code_simp


section \<open>Ordinals and dates\<close>

lemma div_step:
  fixes y k :: int
  assumes "0 < k"
  shows "y div k = (y - 1) div k + (if y mod k = 0 then 1 else 0)"
proof -
  define q where "q = (y - 1) div k"
  define r where "r = (y - 1) mod k"
  have e: "y - 1 = k * q + r" by (simp add: q_def r_def)
  have r: "0 \<le> r" "r < k" using assms by (simp_all add: r_def)
  show ?thesis
  proof (cases "r = k - 1")
    case True
    then have "y = k * (q + 1) + 0" using e by (simp add: algebra_simps)
    then have "y div k = q + 1" "y mod k = 0"
      using assms int_div_pos_eq [of y k "q + 1" 0] int_mod_pos_eq [of y k "q + 1" 0]
      by simp_all
    then show ?thesis by (simp add: q_def)
  next
    case False
    then have "y = k * q + (r + 1)" "0 \<le> r + 1" "r + 1 < k" using e r by simp_all
    then have "y div k = q" "y mod k = r + 1"
      using int_div_pos_eq [of y k q "r + 1"] int_mod_pos_eq [of y k q "r + 1"]
      by simp_all
    then show ?thesis using r by (simp add: q_def)
  qed
qed

lemma mod_400_100: "(y::int) mod 400 = 0 \<Longrightarrow> y mod 100 = 0"
proof -
  assume "y mod 400 = 0"
  then have "400 dvd y" by (simp only: mod_eq_0_iff_dvd)
  moreover have "(100::int) dvd 400" by simp
  ultimately have "100 dvd y" by (rule dvd_trans [rotated])
  then show ?thesis by (simp only: mod_eq_0_iff_dvd)
qed

lemma mod_100_4: "(y::int) mod 100 = 0 \<Longrightarrow> y mod 4 = 0"
proof -
  assume "y mod 100 = 0"
  then have "100 dvd y" by (simp only: mod_eq_0_iff_dvd)
  moreover have "(4::int) dvd 100" by simp
  ultimately have "4 dvd y" by (rule dvd_trans [rotated])
  then show ?thesis by (simp only: mod_eq_0_iff_dvd)
qed

lemma year_step_arith:
  fixes y a b c i j k :: int
  assumes "p = a + i" and "q = b + j" and "r = c + k"
  shows "y * 365 + p - q + r = ((y - 1) * 365 + a - b + c) + 365 + (i - j + k)"
  using assms by (simp add: algebra_simps)

lemma leap_count:
  fixes A B C :: bool
  assumes "C \<Longrightarrow> B" and "B \<Longrightarrow> A"
  shows "(if A then 1 else 0) - (if B then 1 else 0) + (if C then 1 else (0::int)) =
         (if A \<and> (\<not> B \<or> C) then 1 else 0)"
  using assms by auto

lemma days_before_year_step:
  "days_before_year (y + 1) = days_before_year y + 365 + (if is_leap y then 1 else 0)"
proof -
  have d4: "y div 4 = (y - 1) div 4 + (if y mod 4 = 0 then 1 else 0)"
    by (rule div_step) simp
  have d100: "y div 100 = (y - 1) div 100 + (if y mod 100 = 0 then 1 else 0)"
    by (rule div_step) simp
  have d400: "y div 400 = (y - 1) div 400 + (if y mod 400 = 0 then 1 else 0)"
    by (rule div_step) simp
  have n: "days_before_year (y + 1) = y * 365 + y div 4 - y div 100 + y div 400"
    by (simp add: days_before_year_def)
  have o: "days_before_year y =
             (y - 1) * 365 + (y - 1) div 4 - (y - 1) div 100 + (y - 1) div 400"
    by (simp add: days_before_year_def Let_def)
  have i: "(if y mod 4 = 0 then 1 else 0) - (if y mod 100 = 0 then 1 else 0) +
       (if y mod 400 = 0 then 1 else (0::int)) = (if is_leap y then 1 else 0)"
    unfolding is_leap_def by (rule leap_count) (erule mod_400_100, erule mod_100_4)
  show ?thesis
    unfolding n o using year_step_arith [OF d4 d100 d400, of y] i by (simp only:)
qed

lemma days_before_year_mono: "y \<le> y' \<Longrightarrow> days_before_year y \<le> days_before_year y'"
proof (induction y' rule: int_ge_induct)
  case base
  show ?case by simp
next
  case (step i)
  then show ?case using days_before_year_step [of i] by (simp split: if_splits)
qed

lemma days_before_year_next:
  "y < y' \<Longrightarrow>
   days_before_year y + 365 + (if is_leap y then 1 else 0) \<le> days_before_year y'"
  using days_before_year_mono [of "y + 1" y'] days_before_year_step [of y] by simp

lemma days_before_month_next:
  "1 \<le> m \<Longrightarrow> m < 12 \<Longrightarrow>
   days_before_month y (m + 1) = days_before_month y m + days_in_month y m"
  using month_cases [of m]
  by (auto simp: days_before_month_def days_in_month_def DAYS_BEFORE_MONTH_def
      DAYS_IN_MONTH_def)

lemma days_before_month_december:
  "days_before_month y 12 + days_in_month y 12 = 365 + (if is_leap y then 1 else 0)"
  by (simp add: days_before_month_def days_in_month_def DAYS_BEFORE_MONTH_def
      DAYS_IN_MONTH_def)

lemma days_before_month_january: "days_before_month y 1 = 0"
  by (simp add: days_before_month_def DAYS_BEFORE_MONTH_def)

lemma days_before_month_mono:
  assumes "1 \<le> m" and "m \<le> m'" and "m' \<le> 12"
  shows "days_before_month y m \<le> days_before_month y m'"
  using assms(2,1,3)
proof (induction m' rule: int_ge_induct)
  case base
  show ?case by simp
next
  case (step i)
  then show ?case
    using days_before_month_next [of i y] days_in_month_range [of i y] by simp
qed

lemma day_of_year_range:
  assumes "1 \<le> m" and "m \<le> 12" and "1 \<le> d" and "d \<le> days_in_month y m"
  shows "1 \<le> days_before_month y m + d"
    and "days_before_month y m + d \<le> 365 + (if is_leap y then 1 else 0)"
proof -
  have "days_before_month y 1 \<le> days_before_month y m"
    using days_before_month_mono [of 1 m y] assms by simp
  then show "1 \<le> days_before_month y m + d"
    using assms(3) by (simp add: days_before_month_january)
  have "days_before_month y m + days_in_month y m \<le> 365 + (if is_leap y then 1 else 0)"
  proof (cases "m = 12")
    case True
    then show ?thesis using days_before_month_december [of y] by simp
  next
    case False
    then have "days_before_month y (m + 1) \<le> days_before_month y 12"
      using days_before_month_mono [of "m + 1" 12 y] assms by simp
    then show ?thesis
      using False assms days_before_month_next [of m y] days_before_month_december [of y]
        days_in_month_range [of 12 y]
      by (simp split: if_splits)
  qed
  then show "days_before_month y m + d \<le> 365 + (if is_leap y then 1 else 0)"
    using assms(4) by linarith
qed

lemma ymd2ord_injective:
  assumes "1 \<le> m" "m \<le> 12" "1 \<le> d" "d \<le> days_in_month y m"
    and "1 \<le> m'" "m' \<le> 12" "1 \<le> d'" "d' \<le> days_in_month y' m'"
    and eq: "ymd2ord y m d = ymd2ord y' m' d'"
  shows "y = y' \<and> m = m' \<and> d = d'"
proof -
  note r = day_of_year_range [OF assms(1-4)]
  note r' = day_of_year_range [OF assms(5-8)]
  have y: "y = y'"
  proof (rule ccontr)
    assume "y \<noteq> y'"
    then consider "y < y'" | "y' < y" by linarith
    then show False
    proof cases
      case 1
      from days_before_year_next [OF 1] r r' eq show False
        by (simp add: ymd2ord_def)
    next
      case 2
      from days_before_year_next [OF 2] r r' eq show False
        by (simp add: ymd2ord_def)
    qed
  qed
  have e: "days_before_month y m + d = days_before_month y m' + d'"
    using eq y by (simp add: ymd2ord_def)
  have m: "m = m'"
  proof (rule ccontr)
    assume "m \<noteq> m'"
    then consider "m < m'" | "m' < m" by linarith
    then show False
    proof cases
      case 1
      then have "days_before_month y (m + 1) \<le> days_before_month y m'"
        using days_before_month_mono [of "m + 1" m' y] assms by simp
      then show False
        using 1 assms e days_before_month_next [of m y] by simp
    next
      case 2
      then have "days_before_month y (m' + 1) \<le> days_before_month y m"
        using days_before_month_mono [of "m' + 1" m y] assms by simp
      then show False
        using 2 assms e y days_before_month_next [of m' y] by simp
    qed
  qed
  show ?thesis using y m e by simp
qed


text \<open>
  The years of a cycle of 400 years, by their digits in the mixed base of
  \<^verbatim>\<open>_ord2ymd\<close>, and the month estimate for every offset in a year.
\<close>

lemma year_digits:
  "\<forall>b\<in>set [0..3]. \<forall>c\<in>set [0..24]. \<forall>e\<in>set [0..3].
     days_before_year (100 * b + 4 * c + e + 1) = 36524 * b + 1461 * c + 365 * e \<and>
     is_leap (100 * b + 4 * c + e + 1) = (e = 3 \<and> (c \<noteq> 24 \<or> b = 3))"
  by code_simp

lemma month_and_day_table:
  "\<forall>n\<in>set [0..364]. \<forall>l\<in>set [False, True].
     (case month_and_day n l of
        (mo, d) \<Rightarrow>
          1 \<le> mo \<and> mo \<le> 12 \<and> 1 \<le> d \<and>
          d \<le> (if mo = 2 \<and> l then 29 else DAYS_IN_MONTH ! nat mo) \<and>
          DAYS_BEFORE_MONTH ! nat mo + (if mo > 2 \<and> l then 1 else 0) + d = n + 1)"
  by code_simp

lemma year_digits_at:
  assumes "0 \<le> b" "b \<le> 3" "0 \<le> c" "c \<le> 24" "0 \<le> e" "e \<le> 3"
  shows "days_before_year (100 * b + 4 * c + e + 1 + 400 * a) =
           36524 * b + 1461 * c + 365 * e + 146097 * a"
    and "is_leap (100 * b + 4 * c + e + 1 + 400 * a) = (e = 3 \<and> (c \<noteq> 24 \<or> b = 3))"
proof -
  have "b \<in> set [0..3]" "c \<in> set [0..24]" "e \<in> set [0..3]"
    using assms by (simp_all only: set_upto atLeastAtMost_iff)
  then have "days_before_year (100 * b + 4 * c + e + 1) = 36524 * b + 1461 * c + 365 * e"
    and "is_leap (100 * b + 4 * c + e + 1) = (e = 3 \<and> (c \<noteq> 24 \<or> b = 3))"
    using year_digits by blast+
  then show "days_before_year (100 * b + 4 * c + e + 1 + 400 * a) =
           36524 * b + 1461 * c + 365 * e + 146097 * a"
    and "is_leap (100 * b + 4 * c + e + 1 + 400 * a) = (e = 3 \<and> (c \<noteq> 24 \<or> b = 3))"
    by (simp_all only: days_before_year_400 is_leap_400)
qed

lemma month_and_day_at:
  assumes "0 \<le> n" and "n \<le> 364" and "month_and_day n l = (mo, d)"
  shows "1 \<le> mo \<and> mo \<le> 12 \<and> 1 \<le> d \<and>
         d \<le> (if mo = 2 \<and> l then 29 else DAYS_IN_MONTH ! nat mo) \<and>
         DAYS_BEFORE_MONTH ! nat mo + (if mo > 2 \<and> l then 1 else 0) + d = n + 1"
proof -
  have n: "n \<in> set [0..364]"
    using assms(1,2) by (simp only: set_upto atLeastAtMost_iff)
  have l: "l \<in> set [False, True]" by auto
  from month_and_day_table n have "\<forall>l\<in>set [False, True].
     (case month_and_day n l of
        (mo, d) \<Rightarrow>
          1 \<le> mo \<and> mo \<le> 12 \<and> 1 \<le> d \<and>
          d \<le> (if mo = 2 \<and> l then 29 else DAYS_IN_MONTH ! nat mo) \<and>
          DAYS_BEFORE_MONTH ! nat mo + (if mo > 2 \<and> l then 1 else 0) + d = n + 1)"
    by (rule bspec)
  from this l have "case month_and_day n l of
        (mo, d) \<Rightarrow>
          1 \<le> mo \<and> mo \<le> 12 \<and> 1 \<le> d \<and>
          d \<le> (if mo = 2 \<and> l then 29 else DAYS_IN_MONTH ! nat mo) \<and>
          DAYS_BEFORE_MONTH ! nat mo + (if mo > 2 \<and> l then 1 else 0) + d = n + 1"
    by (rule bspec)
  then show ?thesis by (simp add: assms(3))
qed

lemma december_31:
  "is_leap y \<Longrightarrow> ymd2ord y 12 31 = days_before_year y + 366"
  "days_in_month y 12 = 31"
  by (simp_all add: ymd2ord_def days_before_month_def days_in_month_def
      DAYS_BEFORE_MONTH_def DAYS_IN_MONTH_def)

text \<open>\<^verbatim>\<open>_ord2ymd\<close> returns a date of the calendar whose ordinal is its argument.\<close>

lemma ord2ymd_correct:
  assumes "ord2ymd n = (y, m, d)"
  shows "ymd2ord y m d = n \<and> 1 \<le> m \<and> m \<le> 12 \<and> 1 \<le> d \<and> d \<le> days_in_month y m"
proof -
  define a where "a = (n - 1) div 146097"
  define r0 where "r0 = (n - 1) mod 146097"
  define b where "b = r0 div 36524"
  define r1 where "r1 = r0 mod 36524"
  define c where "c = r1 div 1461"
  define r2 where "r2 = r1 mod 1461"
  define e where "e = r2 div 365"
  define r3 where "r3 = r2 mod 365"
  have n: "n = 146097 * a + r0 + 1" and r0: "0 \<le> r0" "r0 < 146097"
    by (simp_all add: a_def r0_def)
  have e0: "r0 = 36524 * b + r1" and r1: "0 \<le> r1" "r1 < 36524"
    by (simp_all add: b_def r1_def)
  have e1: "r1 = 1461 * c + r2" and r2: "0 \<le> r2" "r2 < 1461"
    by (simp_all add: c_def r2_def)
  have e2: "r2 = 365 * e + r3" and r3: "0 \<le> r3" "r3 < 365"
    by (simp_all add: e_def r3_def)
  have b: "0 \<le> b" "b \<le> 4" using e0 r0 r1 by linarith+
  have c: "0 \<le> c" "c \<le> 24" using e1 r1 r2 by linarith+
  have e: "0 \<le> e" "e \<le> 4" using e2 r2 r3 by linarith+
  have o: "ord2ymd n =
      (if e = 4 \<or> b = 4 then (a * 400 + 1 + b * 100 + c * 4 + e - 1, 12, 31)
       else (case month_and_day r3 (e = 3 \<and> (c \<noteq> 24 \<or> b = 3)) of
               (mo, d) \<Rightarrow> (a * 400 + 1 + b * 100 + c * 4 + e, mo, d)))"
    by (simp only: ord2ymd_def Let_def a_def r0_def b_def r1_def c_def r2_def e_def r3_def)
  consider (century) "b = 4" | (fourth) "b \<le> 3" "e = 4" | (normal) "b \<le> 3" "e \<le> 3"
    using b e by linarith
  then show ?thesis
  proof cases
    case century
    have z: "r1 = 0" using century e0 r0 r1 by linarith
    then have "c = 0" "r2 = 0" using e1 r2 c by linarith+
    then have "e = 0" "r3 = 0" using e2 r3 e by linarith+
    have y: "y = 100 * 3 + 4 * 24 + 3 + 1 + 400 * a" and md: "m = 12" "d = 31"
      using assms o century \<open>c = 0\<close> \<open>e = 0\<close> by simp_all
    have D: "days_before_year y = 36524 * 3 + 1461 * 24 + 365 * 3 + 146097 * a"
      unfolding y by (rule year_digits_at(1)) simp_all
    have "is_leap y = ((3::int) = 3 \<and> ((24::int) \<noteq> 24 \<or> (3::int) = 3))"
      unfolding y by (rule year_digits_at(2)) simp_all
    then have L: "is_leap y" by simp
    have "n = 146097 * a + 146097" using n e0 century z by simp
    then show ?thesis
      using december_31(1) [OF L] december_31(2) [of y] D md by simp
  next
    case fourth
    have "r3 = 0" using fourth e2 r2 r3 by linarith
    have c': "c \<le> 23" using fourth e1 e2 r1 r3 by linarith
    have y: "y = 100 * b + 4 * c + 3 + 1 + 400 * a" and md: "m = 12" "d = 31"
      using assms o fourth by simp_all
    have D: "days_before_year y = 36524 * b + 1461 * c + 365 * 3 + 146097 * a"
      unfolding y by (rule year_digits_at(1)) (use b c fourth in simp_all)
    have "is_leap y = ((3::int) = 3 \<and> (c \<noteq> 24 \<or> b = 3))"
      unfolding y by (rule year_digits_at(2)) (use b c fourth in simp_all)
    then have L: "is_leap y" using c' by simp
    have "n = 146097 * a + 36524 * b + 1461 * c + 1461"
      using n e0 e1 e2 fourth \<open>r3 = 0\<close> by simp
    then show ?thesis
      using december_31(1) [OF L] december_31(2) [of y] D md by simp
  next
    case normal
    let ?l = "e = 3 \<and> (c \<noteq> 24 \<or> b = 3)"
    have ne: "\<not> (e = 4 \<or> b = 4)" using normal by simp
    obtain mo dd where md: "month_and_day r3 ?l = (mo, dd)"
      by (cases "month_and_day r3 ?l")
    have y: "y = 100 * b + 4 * c + e + 1 + 400 * a" and m: "m = mo" and d: "d = dd"
      using assms o ne md by simp_all
    have D: "days_before_year y = 36524 * b + 1461 * c + 365 * e + 146097 * a"
      unfolding y by (rule year_digits_at(1)) (use b c e normal in simp_all)
    have L: "is_leap y = ?l"
      unfolding y by (rule year_digits_at(2)) (use b c e normal in simp_all)
    have t: "1 \<le> mo \<and> mo \<le> 12 \<and> 1 \<le> dd \<and>
         dd \<le> (if mo = 2 \<and> ?l then 29 else DAYS_IN_MONTH ! nat mo) \<and>
         DAYS_BEFORE_MONTH ! nat mo + (if mo > 2 \<and> ?l then 1 else 0) + dd = r3 + 1"
      using month_and_day_at [OF _ _ md] r3 by simp
    have "n = 146097 * a + 36524 * b + 1461 * c + 365 * e + r3 + 1"
      using n e0 e1 e2 by simp
    then show ?thesis
      using t D
      by (simp add: ymd2ord_def days_before_month_def days_in_month_def L m d)
  qed
qed


lemma ord2ymd_ymd2ord:
  assumes "1 \<le> m" "m \<le> 12" "1 \<le> d" "d \<le> days_in_month y m"
  shows "ord2ymd (ymd2ord y m d) = (y, m, d)"
proof -
  obtain y' m' d' where o: "ord2ymd (ymd2ord y m d) = (y', m', d')"
    by (cases "ord2ymd (ymd2ord y m d)")
  from ord2ymd_correct [OF o]
  have "y' = y \<and> m' = m \<and> d' = d"
    by (intro ymd2ord_injective) (use assms in simp_all)
  with o show ?thesis by simp
qed









section \<open>The last Thursday and the Friday after it\<close>










end
